theory Spec2Isabelle
  imports Main "HOL-Library.Sublist"
begin

section \<open>Strings\<close>

text \<open>
  Python strings are modelled as \<open>string\<close>; text outside ASCII is read as its UTF-8
  bytes. The delimiters the code splits on (\<open>_\<close> and \<open>.\<close>) and the letters of the
  document extensions are ASCII, and no byte of a multi-byte UTF-8 sequence is ASCII, so
  splitting, joining and suffix tests agree with Python's on code points.
  \<open>lower\<close> folds the ASCII capitals only; it is used only to test for the ASCII
  extensions below.
\<close>

definition lower_char :: "char \<Rightarrow> char" where
  "lower_char c =
     (case map_of (zip ''ABCDEFGHIJKLMNOPQRSTUVWXYZ'' ''abcdefghijklmnopqrstuvwxyz'') c of
        Some l \<Rightarrow> l
      | None \<Rightarrow> c)"

definition lower :: "string \<Rightarrow> string" where
  "lower s = map lower_char s"

definition endswith :: "string \<Rightarrow> string \<Rightarrow> bool" where
  "endswith s suf = (length suf \<le> length s \<and> drop (length s - length suf) s = suf)"

definition lstrip_char :: "char \<Rightarrow> string \<Rightarrow> string" where
  "lstrip_char c s = dropWhile (\<lambda>x. x = c) s"

section \<open>Catalog: the crawl\_nodes table (db/target\_db.py)\<close>

text \<open>
  A row of \<open>crawl_nodes\<close> (\<open>NodeRecord\<close>). The columns a payload may leave
  \<open>None\<close> are options. \<open>node_id\<close> is the surrogate key.
\<close>

record node_row =
  node_id :: nat
  node_task_id :: nat
  node_index :: int
  father_index :: "int option"
  depth :: "int option"
  title :: "string option"
  breadcrumb :: "string option"
  node_url :: string
  father_title :: "string option"
  is_pruned :: bool
  is_file :: bool
  file_extension :: "string option"

text \<open>
  One element of the \<open>nodes\<close> payload of \<open>batch_insert_nodes\<close>: a dict read
  under two spellings of each key. A field is \<open>None\<close> when the key is absent or maps
  to \<open>None\<close>.
\<close>

record node_dict =
  k_Index :: "int option"
  k_node_index :: "int option"
  k_FatherIndex :: "int option"
  k_father_index :: "int option"
  k_Depth :: "int option"
  k_depth :: "int option"
  k_title :: "string option"
  k_Breadcrumb :: "string option"
  k_breadcrumb :: "string option"
  k_Url :: "string option"
  k_url :: "string option"
  k_FatherTitle :: "string option"
  k_father_title :: "string option"

datatype db_error = IntegrityError

definition safe_get :: "'a option \<Rightarrow> 'a option \<Rightarrow> 'a option" where
  "safe_get v1 v2 = (case v1 of Some v \<Rightarrow> Some v | None \<Rightarrow> v2)"

definition file_extensions :: "string list" where
  "file_extensions = [''.pdf'', ''.doc'', ''.docx'', ''.xls'', ''.xlsx'']"

definition url_val_of :: "node_dict \<Rightarrow> string" where
  "url_val_of node = (case safe_get (k_Url node) (k_url node) of None \<Rightarrow> [] | Some u \<Rightarrow> u)"

definition url_is_file :: "string \<Rightarrow> bool" where
  "url_is_file url_val = list_ex (endswith (lower url_val)) file_extensions"

definition url_file_ext :: "string \<Rightarrow> string option" where
  "url_file_ext url_val =
     (if url_is_file url_val
      then map_option (lstrip_char CHR ''.'') (find (endswith (lower url_val)) file_extensions)
      else None)"

text \<open>
  The surrogate key of a new row is drawn from a sequence; the model takes the successor
  of the largest key in the table.
\<close>

definition fresh_node_id :: "node_row list \<Rightarrow> nat" where
  "fresh_node_id rows = Suc (fold max (map node_id rows) 0)"

definition node_key_matches :: "nat \<Rightarrow> int \<Rightarrow> node_row \<Rightarrow> bool" where
  "node_key_matches tid idx r = (node_task_id r = tid \<and> node_index r = idx)"

text \<open>
  Modelled from the spec: the declaration of table \<open>crawl_nodes\<close> is not among the
  sources. Following the spec's data model, \<open>(task_id, node_index)\<close> is the identity
  of a node, so a payload without an index is rejected by the table
  (\<open>IntegrityError\<close>), and the default of column \<open>is_pruned\<close> for a new row is the
  parameter \<open>dflt\<close>.

  One \<open>INSERT ... ON CONFLICT (task_id, node_index) DO UPDATE\<close>: \<open>inserted_row\<close> is
  the \<open>VALUES\<close> row, \<open>excluded_update\<close> the \<open>DO UPDATE SET\<close> list. A row with the
  key is overwritten in the six listed columns, otherwise the new row is appended.
\<close>

definition inserted_row :: "bool \<Rightarrow> nat \<Rightarrow> int \<Rightarrow> node_dict \<Rightarrow> node_row list \<Rightarrow> node_row" where
  "inserted_row dflt tid idx node rows =
     \<lparr>node_id = fresh_node_id rows,
      node_task_id = tid,
      node_index = idx,
      father_index = safe_get (k_FatherIndex node) (k_father_index node),
      depth = safe_get (k_Depth node) (k_depth node),
      title = k_title node,
      breadcrumb = safe_get (k_Breadcrumb node) (k_breadcrumb node),
      node_url = url_val_of node,
      father_title = safe_get (k_FatherTitle node) (k_father_title node),
      is_pruned = dflt,
      is_file = url_is_file (url_val_of node),
      file_extension = url_file_ext (url_val_of node)\<rparr>"

definition excluded_update :: "node_dict \<Rightarrow> node_row \<Rightarrow> node_row" where
  "excluded_update node r =
     r\<lparr>title := k_title node,
       breadcrumb := safe_get (k_Breadcrumb node) (k_breadcrumb node),
       node_url := url_val_of node,
       father_title := safe_get (k_FatherTitle node) (k_father_title node),
       is_file := url_is_file (url_val_of node),
       file_extension := url_file_ext (url_val_of node)\<rparr>"

definition payload_index :: "node_dict \<Rightarrow> int option" where
  "payload_index node = safe_get (k_Index node) (k_node_index node)"

definition insert_node ::
  "bool \<Rightarrow> nat \<Rightarrow> node_dict \<Rightarrow> node_row list \<Rightarrow> db_error + node_row list" where
  "insert_node dflt tid node rows =
     (case payload_index node of
        None \<Rightarrow> Inl IntegrityError
      | Some idx \<Rightarrow>
          Inr (if list_ex (node_key_matches tid idx) rows
               then map (\<lambda>r. if node_key_matches tid idx r then excluded_update node r else r) rows
               else rows @ [inserted_row dflt tid idx node rows]))"

text \<open>
  The loop over the payload inside one transaction: an error leaves the loop before the
  commit, so \<open>Inl\<close> means the table keeps its old contents.
\<close>

fun insert_nodes ::
  "bool \<Rightarrow> nat \<Rightarrow> node_dict list \<Rightarrow> node_row list \<Rightarrow> db_error + node_row list" where
  "insert_nodes dflt tid [] rows = Inr rows"
| "insert_nodes dflt tid (node # nodes) rows =
     (case insert_node dflt tid node rows of
        Inl e \<Rightarrow> Inl e
      | Inr rows' \<Rightarrow> insert_nodes dflt tid nodes rows')"

definition batch_insert_nodes ::
  "bool \<Rightarrow> nat \<Rightarrow> node_dict list \<Rightarrow> node_row list \<Rightarrow> db_error + node_row list" where
  "batch_insert_nodes dflt tid nodes rows =
     (if nodes = [] then Inr rows else insert_nodes dflt tid nodes rows)"

text \<open>
  \<open>mark_nodes_pruned\<close>: an empty index list returns at once; otherwise the first
  UPDATE resets every node of the task and the second marks the listed indices.
\<close>

definition reset_pruned :: "nat \<Rightarrow> node_row list \<Rightarrow> node_row list" where
  "reset_pruned tid rows =
     map (\<lambda>r. if node_task_id r = tid then r\<lparr>is_pruned := False\<rparr> else r) rows"

definition set_pruned :: "nat \<Rightarrow> int list \<Rightarrow> node_row list \<Rightarrow> node_row list" where
  "set_pruned tid indices rows =
     map (\<lambda>r. if node_task_id r = tid \<and> node_index r \<in> set indices
               then r\<lparr>is_pruned := True\<rparr> else r) rows"

definition mark_nodes_pruned :: "nat \<Rightarrow> int list \<Rightarrow> node_row list \<Rightarrow> node_row list" where
  "mark_nodes_pruned tid pruned_indices rows =
     (if pruned_indices = [] then rows
      else set_pruned tid pruned_indices (reset_pruned tid rows))"


subsection \<open>Auxiliary notions for the catalog proofs\<close>

text \<open>The columns \<open>batch_insert_nodes\<close> leaves alone in a row that exists already.\<close>

definition frame_cols :: "node_row \<Rightarrow> nat \<times> nat \<times> int \<times> int option \<times> int option \<times> bool" where
  "frame_cols r = (node_id r, node_task_id r, node_index r, father_index r, depth r, is_pruned r)"

text \<open>A row with its prune marking blanked, to compare tables up to \<open>is_pruned\<close>.\<close>

definition erase_pruned :: "node_row \<Rightarrow> node_row" where
  "erase_pruned r = r\<lparr>is_pruned := False\<rparr>"

text \<open>The payload element that wrote last under each index.\<close>

fun last_payload :: "(int \<rightharpoonup> node_dict) \<Rightarrow> node_dict list \<Rightarrow> (int \<rightharpoonup> node_dict)" where
  "last_payload M [] = M"
| "last_payload M (n # ns) =
     last_payload (case payload_index n of Some idx \<Rightarrow> M(idx \<mapsto> n) | None \<Rightarrow> M) ns"

definition apply_payload :: "nat \<Rightarrow> (int \<rightharpoonup> node_dict) \<Rightarrow> node_row \<Rightarrow> node_row" where
  "apply_payload t M r =
     (if node_task_id r = t
      then (case M (node_index r) of Some n \<Rightarrow> excluded_update n r | None \<Rightarrow> r)
      else r)"

subsection \<open>The upsert in closed form\<close>

text \<open>
  What an upsert of a payload keyed by \<open>(task_id, node_index)\<close> has to produce,
  written without the loop, to compare the loop with. The indices of the payload;
  those among them that have no row of the task yet, each once, in the order in which
  they first occur; the first payload element under an index.
\<close>

definition payload_indices :: "node_dict list \<Rightarrow> int list" where
  "payload_indices nodes = List.map_filter payload_index nodes"

definition new_keys :: "nat \<Rightarrow> node_dict list \<Rightarrow> node_row list \<Rightarrow> int list" where
  "new_keys tid nodes rows =
     rev (remdups (rev (filter (\<lambda>idx. \<not> list_ex (node_key_matches tid idx) rows)
                          (payload_indices nodes))))"

definition first_payload :: "int \<Rightarrow> node_dict list \<Rightarrow> node_dict option" where
  "first_payload idx nodes = find (\<lambda>n. payload_index n = Some idx) nodes"

text \<open>
  The row appended for a new key: inserted from the first payload element under the
  index (which fixes father index and depth), then overwritten by the last one; its
  surrogate key is \<open>nid\<close> and its prune marking the column default.
\<close>

definition appended_row :: "bool \<Rightarrow> nat \<Rightarrow> node_dict list \<Rightarrow> nat \<Rightarrow> int \<Rightarrow> node_row" where
  "appended_row dflt tid nodes nid idx =
     apply_payload tid (last_payload Map.empty nodes)
       ((inserted_row dflt tid idx (the (first_payload idx nodes)) [])\<lparr>node_id := nid\<rparr>)"

text \<open>
  The table after the upsert: every old row in its place, overwritten by the last
  payload element under its key if there is one and untouched otherwise, followed by
  exactly one new row for each new key, with consecutive surrogate keys.
\<close>

definition upsert_result :: "bool \<Rightarrow> nat \<Rightarrow> node_dict list \<Rightarrow> node_row list \<Rightarrow> node_row list" where
  "upsert_result dflt tid nodes rows =
     map (apply_payload tid (last_payload Map.empty nodes)) rows @
     map (\<lambda>(j, idx). appended_row dflt tid nodes (fresh_node_id rows + j) idx)
       (enumerate 0 (new_keys tid nodes rows))"

subsection \<open>Example data\<close>

definition example_rows :: "node_row list" where
  "example_rows =
     [\<lparr>node_id = 1, node_task_id = 1, node_index = 0, father_index = Some (- 1), depth = Some 0,
       title = Some ''root'', breadcrumb = Some [], node_url = ''http://u.example/admissions'',
       father_title = Some [], is_pruned = False, is_file = False, file_extension = None\<rparr>,
      \<lparr>node_id = 2, node_task_id = 1, node_index = 1, father_index = Some 0, depth = Some 1,
       title = Some ''guide'', breadcrumb = Some ''root'', node_url = ''http://u.example/guide.pdf'',
       father_title = Some ''root'', is_pruned = False, is_file = True, file_extension = Some ''pdf''\<rparr>,
      \<lparr>node_id = 3, node_task_id = 2, node_index = 0, father_index = Some (- 1), depth = Some 0,
       title = Some ''other'', breadcrumb = Some [], node_url = ''http://v.example/'',
       father_title = Some [], is_pruned = True, is_file = False, file_extension = None\<rparr>]"

definition example_payload :: "node_dict list" where
  "example_payload =
     [\<lparr>k_Index = Some 0, k_node_index = None, k_FatherIndex = Some (- 1), k_father_index = None,
       k_Depth = Some 0, k_depth = None, k_title = Some ''root'', k_Breadcrumb = Some [],
       k_breadcrumb = None, k_Url = Some ''http://u.example/admissions'', k_url = None,
       k_FatherTitle = Some [], k_father_title = None\<rparr>,
      \<lparr>k_Index = Some 1, k_node_index = None, k_FatherIndex = Some 0, k_father_index = None,
       k_Depth = Some 1, k_depth = None, k_title = Some ''Guide'', k_Breadcrumb = Some ''root'',
       k_breadcrumb = None, k_Url = Some ''http://u.example/Guide.DOCX'', k_url = None,
       k_FatherTitle = Some ''root'', k_father_title = None\<rparr>,
      \<lparr>k_Index = None, k_node_index = Some 2, k_FatherIndex = None, k_father_index = Some 0,
       k_Depth = None, k_depth = Some 1, k_title = None, k_Breadcrumb = None,
       k_breadcrumb = Some ''root'', k_Url = None, k_url = Some ''http://u.example/list.XLS'',
       k_FatherTitle = None, k_father_title = Some ''root''\<rparr>]"

definition example_first_batch :: "node_row list" where
  "example_first_batch =
     [\<lparr>node_id = 1, node_task_id = 7, node_index = 0, father_index = Some (- 1), depth = Some 0,
       title = Some ''root'', breadcrumb = Some [], node_url = ''http://u.example/admissions'',
       father_title = Some [], is_pruned = False, is_file = False, file_extension = None\<rparr>,
      \<lparr>node_id = 2, node_task_id = 7, node_index = 1, father_index = Some 0, depth = Some 1,
       title = Some ''Guide'', breadcrumb = Some ''root'', node_url = ''http://u.example/Guide.DOCX'',
       father_title = Some ''root'', is_pruned = False, is_file = True, file_extension = Some ''docx''\<rparr>,
      \<lparr>node_id = 3, node_task_id = 7, node_index = 2, father_index = Some 0, depth = Some 1,
       title = None, breadcrumb = Some ''root'', node_url = ''http://u.example/list.XLS'',
       father_title = Some ''root'', is_pruned = False, is_file = True, file_extension = Some ''xls''\<rparr>]"

definition example_rows_after :: "node_row list" where
  "example_rows_after =
     [\<lparr>node_id = 1, node_task_id = 1, node_index = 0, father_index = Some (- 1), depth = Some 0,
       title = Some ''root'', breadcrumb = Some [], node_url = ''http://u.example/admissions'',
       father_title = Some [], is_pruned = False, is_file = False, file_extension = None\<rparr>,
      \<lparr>node_id = 2, node_task_id = 1, node_index = 1, father_index = Some 0, depth = Some 1,
       title = Some ''Guide'', breadcrumb = Some ''root'', node_url = ''http://u.example/Guide.DOCX'',
       father_title = Some ''root'', is_pruned = True, is_file = True, file_extension = Some ''docx''\<rparr>,
      \<lparr>node_id = 3, node_task_id = 2, node_index = 0, father_index = Some (- 1), depth = Some 0,
       title = Some ''other'', breadcrumb = Some [], node_url = ''http://v.example/'',
       father_title = Some [], is_pruned = True, is_file = False, file_extension = None\<rparr>,
      \<lparr>node_id = 4, node_task_id = 1, node_index = 2, father_index = Some 0, depth = Some 1,
       title = None, breadcrumb = Some ''root'', node_url = ''http://u.example/list.XLS'',
       father_title = Some ''root'', is_pruned = False, is_file = True, file_extension = Some ''xls''\<rparr>]"

section \<open>Catalog: the crawl\_files table (db/target\_db.py)\<close>

text \<open>
  A row of \<open>crawl_files\<close>. The float column \<open>llm_confidence\<close> and the time stamps
  are left out; no operation below reads them.
\<close>

record file_row =
  file_id :: nat
  file_task_id :: nat
  file_node_id :: nat
  original_url :: string
  original_name :: "string option"
  renamed_name :: "string option"
  file_file_extension :: "string option"
  file_size :: "int option"
  storage_path :: "string option"
  llm_processed :: bool
  llm_model :: "string option"
  llm_raw_response :: "string option"
  download_status :: string
  process_status :: string
  file_error_message :: "string option"

text \<open>Python truthiness of an optional string and of an optional integer.\<close>

definition truthy_str :: "string option \<Rightarrow> bool" where
  "truthy_str v = (case v of None \<Rightarrow> False | Some s \<Rightarrow> s \<noteq> [])"

definition truthy_int :: "int option \<Rightarrow> bool" where
  "truthy_int v = (case v of None \<Rightarrow> False | Some n \<Rightarrow> n \<noteq> 0)"

text \<open>
  \<open>update_file_download\<close> builds the \<open>SET\<close> list from the arguments that are truthy
  and runs one \<open>UPDATE ... WHERE id = :file_id\<close>.
\<close>

definition file_download_update ::
  "string \<Rightarrow> string option \<Rightarrow> int option \<Rightarrow> string option \<Rightarrow> file_row \<Rightarrow> file_row" where
  "file_download_update status storage_path_arg file_size_arg error_message_arg r =
     (let r1 = r\<lparr>download_status := status\<rparr>;
          r2 = (if truthy_str storage_path_arg then r1\<lparr>storage_path := storage_path_arg\<rparr> else r1);
          r3 = (if truthy_int file_size_arg then r2\<lparr>file_size := file_size_arg\<rparr> else r2)
      in if truthy_str error_message_arg then r3\<lparr>file_error_message := error_message_arg\<rparr> else r3)"

definition update_file_download ::
  "nat \<Rightarrow> string \<Rightarrow> string option \<Rightarrow> int option \<Rightarrow> string option \<Rightarrow> file_row list
     \<Rightarrow> file_row list" where
  "update_file_download fid status storage_path_arg file_size_arg error_message_arg files =
     map (\<lambda>r. if file_id r = fid
               then file_download_update status storage_path_arg file_size_arg error_message_arg r
               else r) files"


section \<open>Downloader (storage/downloader.py)\<close>

text \<open>
  The world outside the downloader: what a GET or a HEAD of a url gives (an exception of
  \<open>requests\<close>, or a response), the basename of the unquoted url path
  (\<open>os.path.basename(unquote(urlparse(url).path))\<close>) and the MD5 hex digest. A response
  body is the sequence of chunks \<open>iter_content\<close> yields, each by its length, possibly
  cut short by an exception. Header \<open>Content-Length\<close> is \<open>None\<close> when absent or empty,
  \<open>Some None\<close> when \<open>int\<close> rejects it and \<open>Some (Some n)\<close> otherwise;
  \<open>hdr_disposition_name\<close> is what \<open>_get_filename_from_headers\<close> extracts from
  \<open>Content-Disposition\<close>.
\<close>

datatype request_exception = Timeout | RequestException string | OtherException string

datatype body_event = Chunk nat | BodyRaises request_exception

record response =
  status_code :: int
  hdr_content_length :: "int option option"
  hdr_content_type :: "string option"
  hdr_disposition_name :: "string option"
  body :: "body_event list"

datatype http_method = HEAD | GET

record platform =
  http_get :: "string \<Rightarrow> request_exception + response"
  http_head :: "string \<Rightarrow> request_exception + response"
  url_basename :: "string \<Rightarrow> string"
  md5_hexdigest :: "string \<Rightarrow> string"

text \<open>
  The local state a download touches: the files on disk, each by its size, and the
  requests sent so far. The file system calls themselves are taken to succeed.
\<close>

record io_state =
  disk :: "string \<rightharpoonup> nat"
  http_log :: "(http_method \<times> string) list"

record downloader =
  download_dir :: string
  timeout :: nat
  max_size :: nat

definition SUPPORTED_EXTENSIONS :: "string list" where
  "SUPPORTED_EXTENSIONS = [''.pdf'', ''.doc'', ''.docx'', ''.xls'', ''.xlsx'']"

definition DEFAULT_TIMEOUT :: nat where
  "DEFAULT_TIMEOUT = 60"

definition MAX_FILE_SIZE :: nat where
  "MAX_FILE_SIZE = 50 * 1024 * 1024"

text \<open>The constructor: \<open>timeout or DEFAULT_TIMEOUT\<close>, \<open>max_size or MAX_FILE_SIZE\<close>.\<close>

definition FileDownloader :: "string \<Rightarrow> nat option \<Rightarrow> nat option \<Rightarrow> downloader" where
  "FileDownloader dir timeout_arg max_size_arg =
     \<lparr>download_dir = dir,
      timeout = (case timeout_arg of None \<Rightarrow> DEFAULT_TIMEOUT
                 | Some t \<Rightarrow> if t = 0 then DEFAULT_TIMEOUT else t),
      max_size = (case max_size_arg of None \<Rightarrow> MAX_FILE_SIZE
                  | Some m \<Rightarrow> if m = 0 then MAX_FILE_SIZE else m)\<rparr>"

text \<open>
  The \<open>error_message\<close> of a \<open>DownloadResult\<close>: one constructor for each f-string the
  code builds (\<open>HTTP <status>\<close>, file too large with the size, download timeout with the
  limit, request error and unknown error with \<open>str(e)\<close>). None of these texts is empty.
\<close>

datatype download_error =
    HttpStatus int
  | FileTooLarge int
  | DownloadTimeout nat
  | RequestError string
  | UnknownError string

record download_result =
  success :: bool
  res_url :: string
  local_path :: "string option"
  res_file_size :: "int option"
  file_name :: "string option"
  error_message :: "download_error option"

definition path_join :: "string \<Rightarrow> string \<Rightarrow> string" where
  "path_join a b = a @ ''/'' @ b"

definition get_filename_from_url :: "platform \<Rightarrow> string \<Rightarrow> string" where
  "get_filename_from_url pf url =
     (let filename = url_basename pf url
      in if filename = [] \<or> CHR ''.'' \<notin> set filename
         then take 16 (md5_hexdigest pf url)
         else filename)"

text \<open>\<open>mime in content_type\<close>: the substring test.\<close>

fun contains :: "string \<Rightarrow> string \<Rightarrow> bool" where
  "contains [] sub = (sub = [])"
| "contains (c # s) sub = (prefix sub (c # s) \<or> contains s sub)"

definition type_map :: "(string \<times> string) list" where
  "type_map =
     [(''application/pdf'', ''.pdf''),
      (''application/msword'', ''.doc''),
      (''application/vnd.openxmlformats-officedocument.wordprocessingml.document'', ''.docx''),
      (''application/vnd.ms-excel'', ''.xls''),
      (''application/vnd.openxmlformats-officedocument.spreadsheetml.sheet'', ''.xlsx'')]"

definition get_extension :: "platform \<Rightarrow> string \<Rightarrow> string option \<Rightarrow> string" where
  "get_extension pf url content_type =
     (let filename = get_filename_from_url pf url
      in case find (\<lambda>ext. endswith (lower filename) ext) SUPPORTED_EXTENSIONS of
           Some ext \<Rightarrow> ext
         | None \<Rightarrow>
             (if truthy_str content_type
              then (case find (\<lambda>(mime, ext). contains (the content_type) mime) type_map of
                      Some (mime, ext) \<Rightarrow> ext
                    | None \<Rightarrow> ''.pdf'')
              else ''.pdf''))"


text \<open>
  The three \<open>except\<close> clauses of \<open>download_file\<close>: the result for an exception raised
  anywhere in its \<open>try\<close> block.
\<close>

definition exception_result :: "downloader \<Rightarrow> string \<Rightarrow> request_exception \<Rightarrow> download_result" where
  "exception_result dl url exn =
     \<lparr>success = False, res_url = url, local_path = None, res_file_size = None, file_name = None,
      error_message =
        Some (case exn of
                Timeout \<Rightarrow> DownloadTimeout (timeout dl)
              | RequestException msg \<Rightarrow> RequestError msg
              | OtherException msg \<Rightarrow> UnknownError msg)\<rparr>"

text \<open>
  The streaming loop: empty chunks are skipped, every other chunk is written and
  counted, and the loop stops as soon as the count exceeds the limit.
\<close>

datatype stream_outcome =
    StreamDone nat
  | StreamOversize nat
  | StreamRaised request_exception nat

fun stream_body :: "nat \<Rightarrow> body_event list \<Rightarrow> nat \<Rightarrow> stream_outcome" where
  "stream_body max_sz [] file_sz = StreamDone file_sz"
| "stream_body max_sz (BodyRaises exn # rest) file_sz = StreamRaised exn file_sz"
| "stream_body max_sz (Chunk n # rest) file_sz =
     (if n = 0 then stream_body max_sz rest file_sz
      else if file_sz + n > max_sz then StreamOversize (file_sz + n)
      else stream_body max_sz rest (file_sz + n))"

definition save_dir_of :: "downloader \<Rightarrow> string option \<Rightarrow> string" where
  "save_dir_of dl task_folder =
     (if truthy_str task_folder
      then path_join (path_join (download_dir dl) (the task_folder)) ''raw''
      else path_join (download_dir dl) ''raw'')"

text \<open>The name before the extension is forced: override, then header, then url.\<close>

definition chosen_filename :: "platform \<Rightarrow> string \<Rightarrow> string option \<Rightarrow> response \<Rightarrow> string" where
  "chosen_filename pf url save_name response =
     (if truthy_str save_name then the save_name
      else if truthy_str (hdr_disposition_name response) then the (hdr_disposition_name response)
      else get_filename_from_url pf url)"

definition final_filename :: "platform \<Rightarrow> string \<Rightarrow> string option \<Rightarrow> response \<Rightarrow> string" where
  "final_filename pf url save_name response =
     (let filename = chosen_filename pf url save_name response;
          ext = get_extension pf url (hdr_content_type response)
      in if \<not> list_ex (\<lambda>e. endswith (lower filename) e) SUPPORTED_EXTENSIONS
         then filename @ ext else filename)"

definition download_file ::
  "platform \<Rightarrow> downloader \<Rightarrow> string \<Rightarrow> string option \<Rightarrow> string option \<Rightarrow> io_state
     \<Rightarrow> download_result \<times> io_state" where
  "download_file pf dl url save_name task_folder st =
     (let save_dir = save_dir_of dl task_folder;
          st1 = st\<lparr>http_log := http_log st @ [(GET, url)]\<rparr>
      in case http_get pf url of
           Inl exn \<Rightarrow> (exception_result dl url exn, st1)
         | Inr response \<Rightarrow>
             if status_code response \<noteq> 200
             then (\<lparr>success = False, res_url = url, local_path = None, res_file_size = None,
                    file_name = None,
                    error_message = Some (HttpStatus (status_code response))\<rparr>, st1)
             else
               (case hdr_content_length response of
                  Some None \<Rightarrow>
                    (exception_result dl url (OtherException ''invalid literal for int()''), st1)
                | content_length \<Rightarrow>
                    if (case content_length of Some (Some n) \<Rightarrow> n > int (max_size dl) | _ \<Rightarrow> False)
                    then (\<lparr>success = False, res_url = url, local_path = None,
                           res_file_size = the content_length, file_name = None,
                           error_message = Some (FileTooLarge (the (the content_length)))\<rparr>, st1)
                    else
                      (let filename = final_filename pf url save_name response;
                           path = path_join save_dir filename
                       in case stream_body (max_size dl) (body response) 0 of
                            StreamOversize file_sz \<Rightarrow>
                              (\<lparr>success = False, res_url = url, local_path = None,
                                res_file_size = Some (int file_sz), file_name = Some filename,
                                error_message = Some (FileTooLarge (int file_sz))\<rparr>,
                               st1\<lparr>disk := (disk st1)(path := None)\<rparr>)
                          | StreamRaised exn file_sz \<Rightarrow>
                              (exception_result dl url exn,
                               st1\<lparr>disk := (disk st1)(path \<mapsto> file_sz)\<rparr>)
                          | StreamDone file_sz \<Rightarrow>
                              (\<lparr>success = True, res_url = url, local_path = Some path,
                                res_file_size = Some (int file_sz), file_name = Some filename,
                                error_message = None\<rparr>,
                               st1\<lparr>disk := (disk st1)(path \<mapsto> file_sz)\<rparr>))))"

section \<open>Catalog: the crawl\_tasks table (db/target\_db.py)\<close>

text \<open>A row of \<open>crawl_tasks\<close> (\<open>TaskRecord\<close>), without its time stamps.\<close>

record task_row =
  task_id :: nat
  source_link_id :: int
  source_url :: string
  url_hash :: string
  school_name :: "string option"
  status :: string
  node_count :: int
  pruned_count :: int
  file_count :: int
  task_error_message :: "string option"

text \<open>
  The keyword arguments of \<open>update_task_status\<close>: \<open>None\<close> for a key that is not
  passed. Every caller passes values that are not \<open>None\<close>.
\<close>

record status_kwargs =
  kw_node_count :: "int option"
  kw_pruned_count :: "int option"
  kw_file_count :: "int option"
  kw_error_message :: "string option"

definition no_kwargs :: status_kwargs where
  "no_kwargs = \<lparr>kw_node_count = None, kw_pruned_count = None, kw_file_count = None,
                 kw_error_message = None\<rparr>"

definition task_status_update :: "string \<Rightarrow> status_kwargs \<Rightarrow> task_row \<Rightarrow> task_row" where
  "task_status_update new_status kw r =
     (let r1 = r\<lparr>status := new_status\<rparr>;
          r2 = (case kw_node_count kw of Some v \<Rightarrow> r1\<lparr>node_count := v\<rparr> | None \<Rightarrow> r1);
          r3 = (case kw_pruned_count kw of Some v \<Rightarrow> r2\<lparr>pruned_count := v\<rparr> | None \<Rightarrow> r2);
          r4 = (case kw_file_count kw of Some v \<Rightarrow> r3\<lparr>file_count := v\<rparr> | None \<Rightarrow> r3)
      in case kw_error_message kw of
           Some v \<Rightarrow> r4\<lparr>task_error_message := Some v\<rparr>
         | None \<Rightarrow> r4)"

definition update_task_status ::
  "nat \<Rightarrow> string \<Rightarrow> status_kwargs \<Rightarrow> task_row list \<Rightarrow> task_row list" where
  "update_task_status tid new_status kw tasks =
     map (\<lambda>r. if task_id r = tid then task_status_update new_status kw r else r) tasks"

text \<open>\<open>get_file_nodes\<close>: the file nodes of a task, \<open>ORDER BY node_index\<close>.\<close>

definition get_file_nodes :: "nat \<Rightarrow> bool \<Rightarrow> node_row list \<Rightarrow> node_row list" where
  "get_file_nodes tid pruned_only rows =
     sort_key node_index
       (filter (\<lambda>r. node_task_id r = tid \<and> is_file r \<and> (if pruned_only then is_pruned r else True))
          rows)"

text \<open>
  Modelled from the spec: the declaration of table \<open>crawl_files\<close> is not among the
  sources. A new row starts with both status axes \<open>pending\<close>, as the spec's data model
  and the queries for pending files have it, and with the remaining columns empty.
\<close>

definition fresh_file_id :: "file_row list \<Rightarrow> nat" where
  "fresh_file_id rows = Suc (fold max (map file_id rows) 0)"

definition new_file_row ::
  "nat \<Rightarrow> nat \<Rightarrow> nat \<Rightarrow> string \<Rightarrow> string option \<Rightarrow> string option \<Rightarrow> file_row" where
  "new_file_row fid tid nid url name ext =
     \<lparr>file_id = fid, file_task_id = tid, file_node_id = nid,
      original_url = url, original_name = name, renamed_name = None,
      file_file_extension = ext, file_size = None, storage_path = None,
      llm_processed = False, llm_model = None, llm_raw_response = None,
      download_status = ''pending'', process_status = ''pending'',
      file_error_message = None\<rparr>"

definition create_file_record ::
  "nat \<Rightarrow> nat \<Rightarrow> string \<Rightarrow> string option \<Rightarrow> string option \<Rightarrow> file_row list
     \<Rightarrow> nat \<times> file_row list" where
  "create_file_record tid nid url name ext rows =
     (fresh_file_id rows, rows @ [new_file_row (fresh_file_id rows) tid nid url name ext])"

section \<open>The single-process runtime (main\_v3.py)\<close>

text \<open>
  Everything a task run touches: the three tables, the objects in the bucket (by remote
  path) and the local state of the downloader.
\<close>

record world =
  w_tasks :: "task_row list"
  w_nodes :: "node_row list"
  w_files :: "file_row list"
  w_blobs :: "string list"
  w_io :: io_state

text \<open>
  The controller's settings and collaborators. \<open>upload_raises\<close> tells for which remote
  paths the storage client raises; \<open>pruned_default\<close> is the column default of
  \<open>is_pruned\<close>.
\<close>

record runtime =
  rt_platform :: platform
  rt_downloader :: downloader
  rt_bucket :: string
  upload_raises :: "string \<Rightarrow> bool"
  enable_download :: bool
  pruned_default :: bool

text \<open>
  What the crawler collaborator does in one run of \<open>crawl_single_link\<close>: whether
  creating and starting \<open>OverView\<close> raises; what \<open>_seek_to_db\<close> gets from \<open>Seek\<close> (an
  exception, or the node dicts built from \<open>URL_RLAB\<close>); what \<open>_pruning_to_db\<close> gets
  (an exception of \<open>Pruning\<close>, or the indices read from the cleaned CSV, none when it
  cannot be read); the remote paths \<open>_upload_visualization\<close> writes; whether the update
  to \<open>completed\<close> raises; and whether \<open>ov.end()\<close>, the \<open>print\<close> or \<open>CHECK_Noise()\<close>
  after it raises. Each exception is given by its \<open>str(e)\<close>.
\<close>

record crawl_run =
  start_raises :: "string option"
  seek_result :: "string + node_dict list"
  pruning_result :: "string + int list"
  viz_uploads :: "string list"
  completed_update_raises :: "string option"
  end_raises :: "string option"

text \<open>Decimal digits of a task id, for \<open>f"task_{task_id}"\<close>.\<close>

fun str_nat :: "nat \<Rightarrow> string" where
  "str_nat n =
     (if n < 10 then [char_of (48 + n)]
      else str_nat (n div 10) @ [char_of (48 + n mod 10)])"

text \<open>
  The text stored in column \<open>error_message\<close> for a failed download. The source builds
  it in Chinese with a formatted float; the model keeps an ASCII tag, which like the
  source's text is never empty.
\<close>

definition error_text :: "download_error \<Rightarrow> string" where
  "error_text e =
     (case e of
        HttpStatus code \<Rightarrow> ''HTTP''
      | FileTooLarge n \<Rightarrow> ''file too large''
      | DownloadTimeout t \<Rightarrow> ''download timeout''
      | RequestError msg \<Rightarrow> ''request error: '' @ msg
      | UnknownError msg \<Rightarrow> ''unknown error: '' @ msg)"

text \<open>
  \<open>SupabaseStorage.upload_file\<close>: reads the local file and uploads it; raises when the
  file is missing or the client raises.
\<close>

definition upload_file :: "runtime \<Rightarrow> string \<Rightarrow> string \<Rightarrow> world \<Rightarrow> string + (string \<times> world)" where
  "upload_file rt local remote w =
     (if disk (w_io w) local = None then Inl ''FileNotFoundError''
      else if upload_raises rt remote then Inl ''StorageException''
      else Inr (rt_bucket rt @ ''/'' @ remote, w\<lparr>w_blobs := w_blobs w @ [remote]\<rparr>))"

text \<open>
  The body of the loop of \<open>download_files\<close> for one file node. An exception inside
  the \<open>try\<close> is printed and the loop goes on.
\<close>

definition download_node :: "runtime \<Rightarrow> nat \<Rightarrow> node_row \<Rightarrow> world \<Rightarrow> world" where
  "download_node rt tid node w =
     (let (fid, files1) = create_file_record tid (node_id node) (node_url node) (title node)
                            (file_extension node) (w_files w);
          w1 = w\<lparr>w_files := files1\<rparr>;
          (result, io1) = download_file (rt_platform rt) (rt_downloader rt) (node_url node) None
                            (Some (''task_'' @ str_nat tid)) (w_io w1);
          w2 = w1\<lparr>w_io := io1\<rparr>
      in if success result
         then (let remote_path = ''task_'' @ str_nat tid @ ''/raw/'' @ the (file_name result)
               in case upload_file rt (the (local_path result)) remote_path w2 of
                    Inl exn \<Rightarrow> w2
                  | Inr (stored, w3) \<Rightarrow>
                      w3\<lparr>w_files := update_file_download fid ''completed'' (Some stored)
                                     (res_file_size result) None (w_files w3)\<rparr>)
         else w2\<lparr>w_files := update_file_download fid ''failed'' None None
                              (map_option error_text (error_message result)) (w_files w2)\<rparr>)"

definition download_files :: "runtime \<Rightarrow> nat \<Rightarrow> world \<Rightarrow> world" where
  "download_files rt tid w =
     (if \<not> enable_download rt then w
      else (let file_nodes = get_file_nodes tid True (w_nodes w)
            in if file_nodes = [] then w
               else (let w1 = fold (download_node rt tid) file_nodes w
                     in w1\<lparr>w_tasks := update_task_status tid ''completed''
                                       (no_kwargs\<lparr>kw_file_count := Some (int (length file_nodes))\<rparr>)
                                       (w_tasks w1)\<rparr>)))"

text \<open>
  \<open>crawl_single_link\<close>. The \<open>except\<close> branch writes \<open>failed\<close> with the first 500
  characters of the exception text. The result tells whether the \<open>try\<close> block ran to
  its end.
\<close>

definition crawl_failed :: "nat \<Rightarrow> string \<Rightarrow> world \<Rightarrow> bool \<times> world" where
  "crawl_failed tid msg w =
     (False, w\<lparr>w_tasks := update_task_status tid ''failed''
                           (no_kwargs\<lparr>kw_error_message := Some (take 500 msg)\<rparr>) (w_tasks w)\<rparr>)"

definition crawl_single_link :: "runtime \<Rightarrow> crawl_run \<Rightarrow> nat \<Rightarrow> world \<Rightarrow> bool \<times> world" where
  "crawl_single_link rt run tid w =
     (let w1 = w\<lparr>w_tasks := update_task_status tid ''crawling'' no_kwargs (w_tasks w)\<rparr>
      in case start_raises run of
           Some msg \<Rightarrow> crawl_failed tid msg w1
         | None \<Rightarrow>
        (case seek_result run of
           Inl msg \<Rightarrow> crawl_failed tid msg w1
         | Inr nodes_data \<Rightarrow>
        (case batch_insert_nodes (pruned_default rt) tid nodes_data (w_nodes w1) of
           Inl err \<Rightarrow> crawl_failed tid ''IntegrityError'' w1
         | Inr nodes2 \<Rightarrow>
        (let w2 = w1\<lparr>w_nodes := nodes2\<rparr>
         in case pruning_result run of
              Inl msg \<Rightarrow> crawl_failed tid msg w2
            | Inr pruned_indices \<Rightarrow>
        (let w3 = w2\<lparr>w_nodes := mark_nodes_pruned tid pruned_indices (w_nodes w2)\<rparr>;
             w4 = w3\<lparr>w_blobs := w_blobs w3 @ viz_uploads run\<rparr>
         in case completed_update_raises run of
              Some msg \<Rightarrow> crawl_failed tid msg w4
            | None \<Rightarrow>
        (let w5 = w4\<lparr>w_tasks := update_task_status tid ''completed''
                                  (no_kwargs\<lparr>kw_node_count := Some (int (length nodes_data)),
                                             kw_pruned_count := Some (int (length pruned_indices))\<rparr>)
                                  (w_tasks w4)\<rparr>
         in case end_raises run of
              Some msg \<Rightarrow> crawl_failed tid msg w5
            | None \<Rightarrow> (True, w5)))))))"

text \<open>
  One round of the loop of \<open>run\<close> for a prepared task, as far as it writes table
  \<open>crawl_tasks\<close>: the crawl, then the download pass. The rename pass and the
  imputation after it write only \<open>crawl_files\<close>.
\<close>

definition run_task :: "runtime \<Rightarrow> crawl_run \<Rightarrow> nat \<Rightarrow> world \<Rightarrow> bool \<times> world" where
  "run_task rt run tid w =
     (let (ok, w1) = crawl_single_link rt run tid w
      in (ok, if enable_download rt then download_files rt tid w1 else w1))"

subsection \<open>Example downloads\<close>

definition example_response :: response where
  "example_response =
     \<lparr>status_code = 200, hdr_content_length = None, hdr_content_type = Some ''application/pdf'',
      hdr_disposition_name = None, body = [Chunk 8192, Chunk 0, Chunk 8192, Chunk 100]\<rparr>"

definition example_platform :: platform where
  "example_platform =
     \<lparr>http_get = (\<lambda>url. Inr example_response),
      http_head = (\<lambda>url. Inl Timeout),
      url_basename = (\<lambda>url. ''download''),
      md5_hexdigest = (\<lambda>url. ''0123456789abcdef0123456789abcdef'')\<rparr>"


definition small_downloader :: downloader where
  "small_downloader = FileDownloader ''./temp_downloads'' None (Some 10000)"

definition empty_io :: io_state where
  "empty_io = \<lparr>disk = Map.empty, http_log = []\<rparr>"

subsection \<open>Example runs\<close>

definition example_task :: task_row where
  "example_task =
     \<lparr>task_id = 1, source_link_id = 7, source_url = ''http://u.example/admissions'',
      url_hash = ''0123456789abcdef0123456789abcdef'', school_name = None, status = ''pending'',
      node_count = 0, pruned_count = 0, file_count = 0, task_error_message = None\<rparr>"

definition example_runtime :: runtime where
  "example_runtime =
     \<lparr>rt_platform = example_platform, rt_downloader = small_downloader,
      rt_bucket = ''crawl-files'', upload_raises = (\<lambda>remote. False),
      enable_download = True, pruned_default = False\<rparr>"

definition example_world :: world where
  "example_world =
     \<lparr>w_tasks = [example_task], w_nodes = [], w_files = [], w_blobs = [], w_io = empty_io\<rparr>"

section \<open>Properties\<close>

lemma endswith_suffix: "endswith s suf \<longleftrightarrow> suffix suf s"
proof
  assume "endswith s suf"
  then have "s = take (length s - length suf) s @ suf"
    by (metis append_take_drop_id endswith_def)
  then show "suffix suf s" by (rule suffixI)
next
  assume "suffix suf s"
  then obtain zs where "s = zs @ suf" by (auto simp: suffix_def)
  then show "endswith s suf" by (simp add: endswith_def)
qed

lemma endswith_both:
  "endswith s a \<Longrightarrow> endswith s b \<Longrightarrow> length a \<le> length b \<Longrightarrow> endswith b a"
  unfolding endswith_suffix by (rule suffix_length_suffix)

lemma endswith_comparable:
  assumes "endswith s a" and "endswith s b"
  shows "endswith b a \<or> endswith a b"
proof (cases "length a \<le> length b")
  case True
  with assms show ?thesis by (blast intro: endswith_both)
next
  case False
  then have "length b \<le> length a" by simp
  with assms show ?thesis by (blast intro: endswith_both)
qed

lemma not_two_exts:
  assumes "a \<in> set file_extensions" and "b \<in> set file_extensions"
    and "endswith s a" and "endswith s b"
  shows "a = b"
proof -
  have "endswith b a \<or> endswith a b"
    using assms(3,4) by (rule endswith_comparable)
  with assms(1,2) show ?thesis
    by (auto simp: file_extensions_def endswith_def)
qed

lemma find_first_match:
  "find P xs = Some x \<Longrightarrow> x \<in> set xs \<and> P x"
  by (induction xs) (auto split: if_splits)

lemma url_file_ext_unique:
  assumes "e \<in> set file_extensions" and "endswith (lower u) e"
  shows "url_is_file u \<and> url_file_ext u = Some (tl e)"
proof -
  have isf: "url_is_file u"
    using assms by (auto simp: url_is_file_def list_ex_iff)
  obtain e' where f: "find (endswith (lower u)) file_extensions = Some e'"
    using assms by (cases "find (endswith (lower u)) file_extensions") (auto simp: find_None_iff)
  then have "e' \<in> set file_extensions" "endswith (lower u) e'"
    by (auto dest: find_first_match)
  then have "e' = e" using assms by (blast intro: not_two_exts)
  moreover have "lstrip_char CHR ''.'' e = tl e"
    using assms(1) by (auto simp: file_extensions_def lstrip_char_def)
  ultimately show ?thesis using isf f by (simp add: url_file_ext_def)
qed

lemma url_file_ext_None: "\<not> url_is_file u \<Longrightarrow> url_file_ext u = None"
  by (simp add: url_file_ext_def)

lemma url_is_file_iff: "url_is_file u \<longleftrightarrow> (\<exists>e \<in> set file_extensions. endswith (lower u) e)"
  by (simp add: url_is_file_def list_ex_iff)


lemma insert_node_Inr:
  assumes "insert_node d t n rows = Inr rows'"
  obtains idx where "payload_index n = Some idx"
    and "rows' = (if list_ex (node_key_matches t idx) rows
                  then map (\<lambda>r. if node_key_matches t idx r then excluded_update n r else r) rows
                  else rows @ [inserted_row d t idx n rows])"
  using assms by (auto simp: insert_node_def split: option.splits)

lemma frame_cols_update [simp]: "frame_cols (excluded_update n r) = frame_cols r"
  by (simp add: frame_cols_def excluded_update_def)

lemma insert_node_frame:
  assumes "insert_node d t n rows = Inr rows'"
  shows "length rows \<le> length rows'"
    and "map frame_cols (take (length rows) rows') = map frame_cols rows"
    and "map is_pruned (drop (length rows) rows') = replicate (length rows' - length rows) d"
proof -
  from assms obtain idx where
    r: "rows' = (if list_ex (node_key_matches t idx) rows
                  then map (\<lambda>r. if node_key_matches t idx r then excluded_update n r else r) rows
                  else rows @ [inserted_row d t idx n rows])"
    by (rule insert_node_Inr)
  show "length rows \<le> length rows'" using r by (simp split: if_splits)
  show "map frame_cols (take (length rows) rows') = map frame_cols rows"
    using r by (auto split: if_splits)
  show "map is_pruned (drop (length rows) rows') = replicate (length rows' - length rows) d"
    using r by (auto simp: inserted_row_def split: if_splits)
qed

lemma insert_nodes_frame:
  assumes "insert_nodes d t ns rows = Inr rows'"
  shows "length rows \<le> length rows' \<and>
         map frame_cols (take (length rows) rows') = map frame_cols rows \<and>
         map is_pruned (drop (length rows) rows') = replicate (length rows' - length rows) d"
  using assms
proof (induction ns arbitrary: rows)
  case Nil
  then show ?case by simp
next
  case (Cons n ns)
  from Cons.prems obtain rows1 where
    s1: "insert_node d t n rows = Inr rows1" and s2: "insert_nodes d t ns rows1 = Inr rows'"
    by (auto split: sum.splits)
  note f1 = insert_node_frame [OF s1]
  from Cons.IH [OF s2] have
    l2: "length rows1 \<le> length rows'" and
    c2: "map frame_cols (take (length rows1) rows') = map frame_cols rows1" and
    p2: "map is_pruned (drop (length rows1) rows') = replicate (length rows' - length rows1) d"
    by simp_all
  have len: "length rows \<le> length rows'" using f1(1) l2 by simp
  have "take (length rows) (map frame_cols (take (length rows1) rows')) = take (length rows) (map frame_cols rows1)"
    using c2 by simp
  then have cols: "map frame_cols (take (length rows) rows') = map frame_cols rows"
    using f1(1,2) by (simp add: take_map min_absorb2)
  have pr1: "map is_pruned (take (length rows1) rows') = map is_pruned rows1"
  proof -
    have "map (\<lambda>r. snd (snd (snd (snd (snd (frame_cols r)))))) (take (length rows1) rows')
        = map (\<lambda>r. snd (snd (snd (snd (snd (frame_cols r)))))) rows1"
      using arg_cong [OF c2, of "map (\<lambda>c. snd (snd (snd (snd (snd c)))))"] by (simp add: comp_def)
    then show ?thesis by (simp add: frame_cols_def)
  qed
  have "drop (length rows) rows' = drop (length rows) (take (length rows1) rows') @ drop (length rows1) rows'"
    using f1(1) l2
    by (metis append_take_drop_id drop_append length_take min_absorb2 diff_is_0_eq drop0)
  moreover have "map is_pruned (drop (length rows) (take (length rows1) rows'))
      = drop (length rows) (map is_pruned rows1)"
    using arg_cong [OF pr1, of "drop (length rows)"] by (simp only: drop_map)
  ultimately have "map is_pruned (drop (length rows) rows')
      = drop (length rows) (map is_pruned rows1) @ replicate (length rows' - length rows1) d"
    using p2 by simp
  also have "\<dots> = replicate (length rows1 - length rows) d @ replicate (length rows' - length rows1) d"
    using f1(3) by (simp add: drop_map)
  also have "\<dots> = replicate (length rows' - length rows) d"
    using f1(1) l2 by (simp add: replicate_add [symmetric])
  finally show ?case using len cols by simp
qed


lemma excluded_update_twice [simp]:
  "excluded_update n (excluded_update m r) = excluded_update n r"
  by (simp add: excluded_update_def)

lemma excluded_update_inserted [simp]:
  "excluded_update n (inserted_row d t idx n rows) = inserted_row d t idx n rows"
  by (simp add: excluded_update_def inserted_row_def)

lemma excluded_update_key [simp]:
  "node_key_matches t idx (excluded_update n r) = node_key_matches t idx r"
  "node_task_id (excluded_update n r) = node_task_id r"
  "node_index (excluded_update n r) = node_index r"
  by (simp_all add: excluded_update_def node_key_matches_def)

lemma apply_payload_key [simp]:
  "node_key_matches t' idx (apply_payload t M r) = node_key_matches t' idx r"
  by (simp add: apply_payload_def node_key_matches_def split: option.splits)

lemma apply_payload_fixed_step:
  assumes "insert_node d t n rows = Inr rows'"
    and "\<forall>r \<in> set rows. apply_payload t M r = r"
    and "payload_index n = Some idx"
  shows "\<forall>r \<in> set rows'. apply_payload t (M(idx \<mapsto> n)) r = r"
proof -
  from assms(1) obtain idx' where i: "payload_index n = Some idx'" and
    r: "rows' = (if list_ex (node_key_matches t idx') rows
                  then map (\<lambda>r. if node_key_matches t idx' r then excluded_update n r else r) rows
                  else rows @ [inserted_row d t idx' n rows])"
    by (rule insert_node_Inr)
  from i assms(3) have [simp]: "idx' = idx" by (simp add: payload_index_def)
  show ?thesis
  proof (cases "list_ex (node_key_matches t idx) rows")
    case True
    then have "rows' = map (\<lambda>r. if node_key_matches t idx r then excluded_update n r else r) rows"
      using r by simp
    then show ?thesis using assms(2)
      by (auto simp: apply_payload_def node_key_matches_def split: option.splits)
  next
    case False
    then have "rows' = rows @ [inserted_row d t idx n rows]" using r by simp
    moreover have "\<forall>r \<in> set rows. \<not> node_key_matches t idx r"
      using False by (simp add: list_ex_iff)
    moreover have "node_task_id (inserted_row d t idx n rows) = t"
      "node_index (inserted_row d t idx n rows) = idx"
      by (simp_all add: inserted_row_def)
    ultimately show ?thesis using assms(2)
      by (auto simp: apply_payload_def node_key_matches_def split: option.splits)
  qed
qed

lemma insert_node_index:
  assumes "insert_node d t n rows = Inr rows'"
  obtains idx where "payload_index n = Some idx"
  using assms by (auto simp: insert_node_def payload_index_def split: option.splits)

lemma apply_payload_fixed:
  assumes "insert_nodes d t ns rows = Inr rows'"
    and "\<forall>r \<in> set rows. apply_payload t M r = r"
  shows "\<forall>r \<in> set rows'. apply_payload t (last_payload M ns) r = r"
  using assms
proof (induction ns arbitrary: rows M)
  case Nil
  then show ?case by simp
next
  case (Cons n ns)
  from Cons.prems(1) obtain rows1 where
    s1: "insert_node d t n rows = Inr rows1" and s2: "insert_nodes d t ns rows1 = Inr rows'"
    by (auto split: sum.splits)
  from s1 obtain idx where i: "payload_index n = Some idx" by (rule insert_node_index)
  have "\<forall>r \<in> set rows1. apply_payload t (M(idx \<mapsto> n)) r = r"
    using s1 Cons.prems(2) i by (rule apply_payload_fixed_step)
  then have "\<forall>r \<in> set rows'. apply_payload t (last_payload (M(idx \<mapsto> n)) ns) r = r"
    by (rule Cons.IH [OF s2])
  moreover have "last_payload M (n # ns) = last_payload (M(idx \<mapsto> n)) ns"
    using i by simp
  ultimately show ?case by (simp only:)
qed

lemma insert_node_keeps_key:
  assumes "insert_node d t n rows = Inr rows'" and "list_ex (node_key_matches t' i) rows"
  shows "list_ex (node_key_matches t' i) rows'"
proof -
  from assms(1) obtain idx where
    r: "rows' = (if list_ex (node_key_matches t idx) rows
                  then map (\<lambda>r. if node_key_matches t idx r then excluded_update n r else r) rows
                  else rows @ [inserted_row d t idx n rows])"
    by (rule insert_node_Inr)
  show ?thesis
  proof (cases "list_ex (node_key_matches t idx) rows")
    case True
    from assms(2) obtain r0 where "r0 \<in> set rows" "node_key_matches t' i r0"
      by (auto simp: list_ex_iff)
    then have "(if node_key_matches t idx r0 then excluded_update n r0 else r0) \<in> set rows'"
      "node_key_matches t' i (if node_key_matches t idx r0 then excluded_update n r0 else r0)"
      using r True by auto
    then show ?thesis unfolding list_ex_iff by blast
  next
    case False
    then show ?thesis using r assms(2) by (auto simp: list_ex_iff)
  qed
qed

lemma insert_node_has_key:
  assumes "insert_node d t n rows = Inr rows'" and "payload_index n = Some idx"
  shows "list_ex (node_key_matches t idx) rows'"
proof -
  from assms(1) obtain idx' where i: "payload_index n = Some idx'" and
    r: "rows' = (if list_ex (node_key_matches t idx') rows
                  then map (\<lambda>r. if node_key_matches t idx' r then excluded_update n r else r) rows
                  else rows @ [inserted_row d t idx' n rows])"
    by (rule insert_node_Inr)
  from i assms(2) have e: "idx' = idx" by (simp add: payload_index_def)
  show ?thesis
  proof (cases "list_ex (node_key_matches t idx) rows")
    case True
    then show ?thesis using insert_node_keeps_key [OF assms(1)] by blast
  next
    case False
    then show ?thesis using r e by (simp add: inserted_row_def node_key_matches_def)
  qed
qed

lemma insert_nodes_keeps_key:
  assumes "insert_nodes d t ns rows = Inr rows'" and "list_ex (node_key_matches t' i) rows"
  shows "list_ex (node_key_matches t' i) rows'"
  using assms
proof (induction ns arbitrary: rows)
  case Nil
  then show ?case by simp
next
  case (Cons n ns)
  from Cons.prems(1) obtain rows1 where
    s1: "insert_node d t n rows = Inr rows1" and s2: "insert_nodes d t ns rows1 = Inr rows'"
    by (auto split: sum.splits)
  from insert_node_keeps_key [OF s1 Cons.prems(2)] Cons.IH [OF s2] show ?case by blast
qed

lemma insert_nodes_has_keys:
  assumes "insert_nodes d t ns rows = Inr rows'" and "n \<in> set ns"
  shows "\<exists>idx. payload_index n = Some idx \<and> list_ex (node_key_matches t idx) rows'"
  using assms
proof (induction ns arbitrary: rows)
  case Nil
  then show ?case by simp
next
  case (Cons m ns)
  from Cons.prems(1) obtain rows1 where
    s1: "insert_node d t m rows = Inr rows1" and s2: "insert_nodes d t ns rows1 = Inr rows'"
    by (auto split: sum.splits)
  show ?case
  proof (cases "n = m")
    case True
    from s1 obtain idx where i: "payload_index m = Some idx" by (rule insert_node_index)
    from insert_node_has_key [OF s1 i] insert_nodes_keeps_key [OF s2]
    show ?thesis using True i by blast
  next
    case False
    with Cons.prems(2) have "n \<in> set ns" by simp
    from Cons.IH [OF s2 this] show ?thesis .
  qed
qed

lemma insert_nodes_update_only:
  assumes "\<forall>n \<in> set ns. \<exists>idx. payload_index n = Some idx \<and> list_ex (node_key_matches t idx) rows0"
  shows "insert_nodes d t ns (map (apply_payload t M) rows0)
           = Inr (map (apply_payload t (last_payload M ns)) rows0)"
  using assms
proof (induction ns arbitrary: M)
  case Nil
  then show ?case by simp
next
  case (Cons n ns)
  from Cons.prems obtain idx where i: "payload_index n = Some idx"
    and k: "list_ex (node_key_matches t idx) rows0" by auto
  have k': "list_ex (node_key_matches t idx) (map (apply_payload t M) rows0)"
    using k by (auto simp: list_ex_iff)
  have step: "insert_node d t n (map (apply_payload t M) rows0)
      = Inr (map (apply_payload t (M(idx \<mapsto> n))) rows0)"
  proof -
    have "(if node_key_matches t idx r then excluded_update n (apply_payload t M r) else apply_payload t M r)
        = apply_payload t (M(idx \<mapsto> n)) r" for r
      by (auto simp: apply_payload_def node_key_matches_def split: option.splits)
    then show ?thesis
      using i k' by (simp add: insert_node_def payload_index_def comp_def)
  qed
  have "\<forall>n \<in> set ns. \<exists>idx. payload_index n = Some idx \<and> list_ex (node_key_matches t idx) rows0"
    using Cons.prems by simp
  then have "insert_nodes d t ns (map (apply_payload t (M(idx \<mapsto> n))) rows0)
      = Inr (map (apply_payload t (last_payload (M(idx \<mapsto> n)) ns)) rows0)"
    by (rule Cons.IH)
  moreover have "last_payload M (n # ns) = last_payload (M(idx \<mapsto> n)) ns"
    using i by simp
  ultimately show ?case using step by (simp only: insert_nodes.simps sum.case)
qed

lemma insert_nodes_idem:
  assumes "insert_nodes d t ns rows = Inr rows'"
  shows "insert_nodes d t ns rows' = Inr rows'"
proof -
  have fixed: "\<forall>r \<in> set rows'. apply_payload t (last_payload Map.empty ns) r = r"
    using assms by (rule apply_payload_fixed) (simp add: apply_payload_def)
  have keys: "\<forall>n \<in> set ns. \<exists>idx. payload_index n = Some idx \<and> list_ex (node_key_matches t idx) rows'"
    using insert_nodes_has_keys [OF assms] by blast
  have "map (apply_payload t Map.empty) rows' = rows'"
    by (rule map_idI) (simp add: apply_payload_def)
  with insert_nodes_update_only [OF keys, of d Map.empty]
  have "insert_nodes d t ns rows' = Inr (map (apply_payload t (last_payload Map.empty ns)) rows')"
    by simp
  also have "map (apply_payload t (last_payload Map.empty ns)) rows' = rows'"
    using fixed by (simp add: map_idI)
  finally show ?thesis .
qed

lemma erase_pruned_facts [simp]:
  "node_key_matches t idx (erase_pruned r) = node_key_matches t idx r"
  "node_id (erase_pruned r) = node_id r"
  "erase_pruned (excluded_update n r) = excluded_update n (erase_pruned r)"
  by (simp_all add: erase_pruned_def node_key_matches_def excluded_update_def)

lemma erase_pruned_inserted [simp]:
  "erase_pruned (inserted_row d t idx n rows) = inserted_row False t idx n rows"
  by (simp add: erase_pruned_def inserted_row_def)

lemma list_ex_key_erased:
  "list_ex (node_key_matches t idx) (map erase_pruned rows) = list_ex (node_key_matches t idx) rows"
  by (simp add: list_ex_iff)

lemma fresh_node_id_erased: "fresh_node_id (map erase_pruned rows) = fresh_node_id rows"
  by (simp add: fresh_node_id_def comp_def)

lemma inserted_row_erased:
  "inserted_row d t idx n (map erase_pruned rows) = inserted_row d t idx n rows"
  by (simp add: inserted_row_def fresh_node_id_erased)

lemma insert_node_erased:
  "map_sum id (map erase_pruned) (insert_node d t n rows)
     = map_sum id (map erase_pruned) (insert_node d t n (map erase_pruned rows))"
proof (cases "payload_index n")
  case None
  then show ?thesis by (simp add: insert_node_def)
next
  case (Some idx)
  have "map erase_pruned (map (\<lambda>r. if node_key_matches t idx r then excluded_update n r else r) rows)
      = map erase_pruned (map (\<lambda>r. if node_key_matches t idx r then excluded_update n r else r)
          (map erase_pruned rows))"
    by (induction rows) (simp_all add: erase_pruned_def excluded_update_def node_key_matches_def)
  moreover have "map erase_pruned (map erase_pruned rows) = map erase_pruned rows"
    by (simp add: erase_pruned_def)
  ultimately show ?thesis
    using Some by (simp add: insert_node_def list_ex_key_erased inserted_row_erased)
qed

lemma insert_node_ignores_pruned:
  assumes "map erase_pruned rows2 = map erase_pruned rows"
  shows "map_sum id (map erase_pruned) (insert_node d t n rows2)
       = map_sum id (map erase_pruned) (insert_node d t n rows)"
  using insert_node_erased [of d t n rows2] insert_node_erased [of d t n rows] assms by simp

lemma insert_nodes_ignores_pruned:
  assumes "map erase_pruned rows2 = map erase_pruned rows"
  shows "map_sum id (map erase_pruned) (insert_nodes d t ns rows2)
       = map_sum id (map erase_pruned) (insert_nodes d t ns rows)"
  using assms
proof (induction ns arbitrary: rows rows2)
  case Nil
  then show ?case by simp
next
  case (Cons n ns)
  note step = insert_node_ignores_pruned [OF Cons.prems, of d t n]
  show ?case
  proof (cases "insert_node d t n rows")
    case (Inl e)
    with step obtain e2 where "insert_node d t n rows2 = Inl e2" "e2 = e"
      by (cases "insert_node d t n rows2") auto
    with Inl show ?thesis by simp
  next
    case (Inr rows1)
    with step obtain rows1' where r2: "insert_node d t n rows2 = Inr rows1'"
      and e: "map erase_pruned rows1' = map erase_pruned rows1"
      by (cases "insert_node d t n rows2") auto
    from Cons.IH [OF e] show ?thesis using Inr r2 by simp
  qed
qed

lemma last_payload_append:
  "last_payload M (xs @ ys) = last_payload (last_payload M xs) ys"
  by (induction xs arbitrary: M) simp_all

lemma last_payload_other:
  "\<forall>m \<in> set ns. payload_index m \<noteq> Some idx \<Longrightarrow> last_payload M ns idx = M idx"
  by (induction ns arbitrary: M) (auto split: option.splits)

lemma last_payload_last:
  assumes "payload_index n = Some idx" and "\<forall>m \<in> set post. payload_index m \<noteq> Some idx"
  shows "last_payload M (pre @ n # post) idx = Some n"
  using assms by (simp add: last_payload_append last_payload_other)

lemma insert_nodes_last_wins:
  assumes "insert_nodes d t (pre @ n # post) rows = Inr rows'"
    and "payload_index n = Some idx" and "\<forall>m \<in> set post. payload_index m \<noteq> Some idx"
    and "r \<in> set rows'" and "node_key_matches t idx r"
  shows "excluded_update n r = r"
proof -
  have "\<forall>r \<in> set rows'. apply_payload t (last_payload Map.empty (pre @ n # post)) r = r"
    using assms(1) by (rule apply_payload_fixed) (simp add: apply_payload_def)
  with assms(4) have "apply_payload t (last_payload Map.empty (pre @ n # post)) r = r" by blast
  moreover have "last_payload Map.empty (pre @ n # post) idx = Some n"
    using assms(2,3) by (rule last_payload_last)
  ultimately show ?thesis
    using assms(5) by (simp add: apply_payload_def node_key_matches_def)
qed

lemma excluded_update_fixed:
  assumes "excluded_update n r = r"
  shows "title r = k_title n"
    and "breadcrumb r = safe_get (k_Breadcrumb n) (k_breadcrumb n)"
    and "node_url r = url_val_of n"
    and "father_title r = safe_get (k_FatherTitle n) (k_father_title n)"
    and "is_file r = url_is_file (node_url r)"
    and "file_extension r = url_file_ext (node_url r)"
proof -
  have "title (excluded_update n r) = k_title n"
    "breadcrumb (excluded_update n r) = safe_get (k_Breadcrumb n) (k_breadcrumb n)"
    "node_url (excluded_update n r) = url_val_of n"
    "father_title (excluded_update n r) = safe_get (k_FatherTitle n) (k_father_title n)"
    "is_file (excluded_update n r) = url_is_file (node_url (excluded_update n r))"
    "file_extension (excluded_update n r) = url_file_ext (node_url (excluded_update n r))"
    by (simp_all add: excluded_update_def)
  then show "title r = k_title n"
    and "breadcrumb r = safe_get (k_Breadcrumb n) (k_breadcrumb n)"
    and "node_url r = url_val_of n"
    and "father_title r = safe_get (k_FatherTitle n) (k_father_title n)"
    and "is_file r = url_is_file (node_url r)"
    and "file_extension r = url_file_ext (node_url r)"
    by (simp_all only: assms)
qed

subsection \<open>The insertion loop computes the closed form\<close>

lemma payload_indices_snoc:
  "payload_index n = Some idx \<Longrightarrow> payload_indices (pre @ [n]) = payload_indices pre @ [idx]"
  by (simp add: payload_indices_def map_filter_def)

lemma in_payload_indices:
  "i \<in> set (payload_indices ns) \<longleftrightarrow> (\<exists>m \<in> set ns. payload_index m = Some i)"
  by (auto simp: payload_indices_def map_filter_def image_iff)

lemma set_new_keys:
  "set (new_keys t ns rows)
     = {i \<in> set (payload_indices ns). \<not> list_ex (node_key_matches t i) rows}"
  by (auto simp: new_keys_def)

lemma distinct_new_keys: "distinct (new_keys t ns rows)"
  by (simp add: new_keys_def)

lemma new_keys_snoc:
  assumes "payload_index n = Some idx"
  shows "new_keys t (pre @ [n]) rows =
           (if list_ex (node_key_matches t idx) rows \<or> idx \<in> set (new_keys t pre rows)
            then new_keys t pre rows else new_keys t pre rows @ [idx])"
  using assms by (auto simp: new_keys_def payload_indices_snoc)

lemma find_snoc:
  "find P (xs @ [x]) = (case find P xs of Some y \<Rightarrow> Some y | None \<Rightarrow> if P x then Some x else None)"
  by (induction xs) simp_all

lemma first_payload_old:
  "i \<in> set (payload_indices pre) \<Longrightarrow> first_payload i (pre @ [n]) = first_payload i pre"
proof -
  assume "i \<in> set (payload_indices pre)"
  then have "find (\<lambda>m. payload_index m = Some i) pre \<noteq> None"
    by (auto simp: in_payload_indices find_None_iff)
  then show ?thesis by (auto simp: first_payload_def find_snoc)
qed

lemma first_payload_new:
  assumes "payload_index n = Some idx" and "idx \<notin> set (payload_indices pre)"
  shows "first_payload idx (pre @ [n]) = Some n"
proof -
  from assms(2) have "find (\<lambda>m. payload_index m = Some idx) pre = None"
    by (auto simp: in_payload_indices find_None_iff)
  with assms(1) show ?thesis by (simp add: first_payload_def find_snoc)
qed

lemma last_payload_snoc:
  "payload_index n = Some idx \<Longrightarrow> last_payload M (pre @ [n]) = (last_payload M pre)(idx \<mapsto> n)"
  by (simp add: last_payload_append)

lemma last_payload_absent:
  "idx \<notin> set (payload_indices ns) \<Longrightarrow> last_payload M ns idx = M idx"
  by (rule last_payload_other) (auto simp: in_payload_indices)

lemma apply_payload_upd:
  "apply_payload t (M(idx \<mapsto> n)) r =
     (if node_key_matches t idx r then excluded_update n (apply_payload t M r)
      else apply_payload t M r)"
  by (auto simp: apply_payload_def node_key_matches_def split: option.splits)

lemma appended_row_key [simp]:
  "node_key_matches t' i' (appended_row d t ns nid i) \<longleftrightarrow> t' = t \<and> i' = i"
  by (simp only: appended_row_def apply_payload_key)
    (auto simp: inserted_row_def node_key_matches_def)

lemma appended_row_id [simp]: "node_id (appended_row d t ns nid i) = nid"
  by (simp add: appended_row_def apply_payload_def excluded_update_def split: option.splits)

lemma appended_row_snoc:
  assumes "payload_index n = Some idx" and "i \<in> set (payload_indices pre)"
  shows "appended_row d t (pre @ [n]) nid i =
           (if i = idx then excluded_update n (appended_row d t pre nid i)
            else appended_row d t pre nid i)"
proof -
  let ?base = "(inserted_row d t i (the (first_payload i pre)) [])\<lparr>node_id := nid\<rparr>"
  have k: "node_key_matches t idx ?base \<longleftrightarrow> i = idx"
    by (auto simp: inserted_row_def node_key_matches_def)
  have "appended_row d t (pre @ [n]) nid i
      = apply_payload t ((last_payload Map.empty pre)(idx \<mapsto> n)) ?base"
    using assms by (simp add: appended_row_def first_payload_old last_payload_snoc)
  also have "\<dots> = (if i = idx then excluded_update n (apply_payload t (last_payload Map.empty pre) ?base)
                     else apply_payload t (last_payload Map.empty pre) ?base)"
    by (simp only: apply_payload_upd k)
  finally show ?thesis by (simp add: appended_row_def)
qed

lemma appended_row_new:
  assumes "payload_index n = Some idx" and "idx \<notin> set (payload_indices pre)"
  shows "appended_row d t (pre @ [n]) nid idx = (inserted_row d t idx n rows0)\<lparr>node_id := nid\<rparr>"
proof -
  have "last_payload Map.empty (pre @ [n]) idx = Some n"
    using assms(1) by (simp add: last_payload_snoc)
  then show ?thesis
    using assms
    by (simp add: appended_row_def first_payload_new apply_payload_def inserted_row_def
        excluded_update_def)
qed

lemma fold_max_snoc: "fold max (xs @ [y]) (a::nat) = max y (fold max xs a)"
  by simp

lemma fold_max_fresh_run:
  "Suc (fold max (xs @ map (\<lambda>j. Suc (fold max xs 0) + j) [0..<k]) 0) = Suc (fold max xs 0) + k"
proof (induction k)
  case 0
  then show ?case by simp
next
  case (Suc k)
  have "fold max (xs @ map (\<lambda>j. Suc (fold max xs 0) + j) [0..<Suc k]) 0
      = max (Suc (fold max xs 0) + k) (fold max (xs @ map (\<lambda>j. Suc (fold max xs 0) + j) [0..<k]) 0)"
    by simp
  with Suc.IH show ?case by simp
qed

lemma apply_payload_id [simp]: "node_id (apply_payload t M r) = node_id r"
  by (simp add: apply_payload_def excluded_update_def split: option.splits)

lemma fresh_node_id_upsert:
  "fresh_node_id (upsert_result d t ns rows) = fresh_node_id rows + length (new_keys t ns rows)"
proof -
  let ?K = "new_keys t ns rows" and ?F = "fresh_node_id rows"
  have e: "map fst (enumerate 0 ?K) = [0..<length ?K]"
    by (simp add: map_fst_enumerate)
  have "map (\<lambda>p. ?F + fst p) (enumerate 0 ?K) = map ((+) ?F \<circ> fst) (enumerate 0 ?K)"
    by (simp add: comp_def)
  also have "\<dots> = map ((+) ?F) (map fst (enumerate 0 ?K))"
    by (simp only: map_map)
  also have "\<dots> = map (\<lambda>j. ?F + j) [0..<length ?K]"
    by (simp only: e)
  finally have run: "map (\<lambda>p. ?F + fst p) (enumerate 0 ?K) = map (\<lambda>j. ?F + j) [0..<length ?K]" .
  have "map node_id (upsert_result d t ns rows)
      = map node_id rows @ map (\<lambda>p. ?F + fst p) (enumerate 0 ?K)"
    by (simp add: upsert_result_def comp_def case_prod_beta del: upt_Suc)
  then have ids: "map node_id (upsert_result d t ns rows)
      = map node_id rows @ map (\<lambda>j. Suc (fold max (map node_id rows) 0) + j) [0..<length ?K]"
    by (simp only: run) (simp add: fresh_node_id_def)
  show ?thesis
    unfolding fresh_node_id_def [of "upsert_result d t ns rows"] ids
    by (simp only: fold_max_fresh_run fresh_node_id_def)
qed

lemma upsert_result_has_key:
  "list_ex (node_key_matches t idx) (upsert_result d t ns rows)
     \<longleftrightarrow> list_ex (node_key_matches t idx) rows \<or> idx \<in> set (new_keys t ns rows)"
proof -
  let ?K = "new_keys t ns rows"
  have "list_ex (node_key_matches t idx)
          (map (\<lambda>(j, i). appended_row d t ns (fresh_node_id rows + j) i) (enumerate 0 ?K))
        \<longleftrightarrow> (\<exists>p \<in> set (enumerate 0 ?K). snd p = idx)"
    by (simp add: list_ex_iff case_prod_beta eq_commute)
  also have "\<dots> \<longleftrightarrow> idx \<in> snd ` set (enumerate 0 ?K)"
    by force
  also have "snd ` set (enumerate 0 ?K) = set ?K"
    by (metis set_map map_snd_enumerate)
  finally have new: "list_ex (node_key_matches t idx)
          (map (\<lambda>(j, i). appended_row d t ns (fresh_node_id rows + j) i) (enumerate 0 ?K))
        \<longleftrightarrow> idx \<in> set ?K" .
  have old: "list_ex (node_key_matches t idx) (map (apply_payload t (last_payload Map.empty ns)) rows)
        \<longleftrightarrow> list_ex (node_key_matches t idx) rows"
    by (simp add: list_ex_iff)
  have app: "list_ex P (xs @ ys) \<longleftrightarrow> list_ex P xs \<or> list_ex P ys" for P and xs ys :: "node_row list"
    by (auto simp: list_ex_iff)
  show ?thesis
    unfolding upsert_result_def by (simp only: app old new)
qed

lemma new_key_in_payload:
  "i \<in> set (new_keys t ns rows) \<Longrightarrow> i \<in> set (payload_indices ns)"
  by (simp add: set_new_keys)

lemma insert_node_upsert_step:
  assumes idx: "payload_index n = Some idx"
  shows "insert_node d t n (upsert_result d t pre rows) = Inr (upsert_result d t (pre @ [n]) rows)"
proof (cases "list_ex (node_key_matches t idx) rows \<or> idx \<in> set (new_keys t pre rows)")
  case True
  then have has: "list_ex (node_key_matches t idx) (upsert_result d t pre rows)"
    by (simp add: upsert_result_has_key)
  have keys: "new_keys t (pre @ [n]) rows = new_keys t pre rows"
    using idx True by (simp add: new_keys_snoc)
  have old: "map (\<lambda>r. if node_key_matches t idx r then excluded_update n r else r)
               (map (apply_payload t (last_payload Map.empty pre)) rows)
           = map (apply_payload t (last_payload Map.empty (pre @ [n]))) rows"
    using idx by (simp add: last_payload_snoc apply_payload_upd)
  have new: "map (\<lambda>r. if node_key_matches t idx r then excluded_update n r else r)
               (map (\<lambda>(j, i). appended_row d t pre (fresh_node_id rows + j) i)
                  (enumerate 0 (new_keys t pre rows)))
           = map (\<lambda>(j, i). appended_row d t (pre @ [n]) (fresh_node_id rows + j) i)
               (enumerate 0 (new_keys t pre rows))"
  proof (simp only: map_map, rule map_cong [OF refl])
    fix p assume p: "p \<in> set (enumerate 0 (new_keys t pre rows))"
    obtain j i where ji: "p = (j, i)" by (cases p)
    with p have "i \<in> set (new_keys t pre rows)" by (auto simp: in_set_enumerate_eq)
    then have "i \<in> set (payload_indices pre)" by (rule new_key_in_payload)
    from appended_row_snoc [OF idx this, of d t "fresh_node_id rows + j"]
    show "((\<lambda>r. if node_key_matches t idx r then excluded_update n r else r) \<circ>
            (\<lambda>(j, i). appended_row d t pre (fresh_node_id rows + j) i)) p
          = (case p of (j, i) \<Rightarrow> appended_row d t (pre @ [n]) (fresh_node_id rows + j) i)"
      using ji by auto
  qed
  have "insert_node d t n (upsert_result d t pre rows)
      = Inr (map (\<lambda>r. if node_key_matches t idx r then excluded_update n r else r)
               (upsert_result d t pre rows))"
    using idx has by (simp add: insert_node_def)
  also have "map (\<lambda>r. if node_key_matches t idx r then excluded_update n r else r)
               (upsert_result d t pre rows) = upsert_result d t (pre @ [n]) rows"
    unfolding upsert_result_def map_append old new keys ..
  finally show ?thesis .
next
  case False
  then have nokey: "\<not> list_ex (node_key_matches t idx) rows"
    and notnew: "idx \<notin> set (new_keys t pre rows)" by simp_all
  then have fresh: "idx \<notin> set (payload_indices pre)" by (simp add: set_new_keys)
  have has: "\<not> list_ex (node_key_matches t idx) (upsert_result d t pre rows)"
    using False by (simp add: upsert_result_has_key)
  have keys: "new_keys t (pre @ [n]) rows = new_keys t pre rows @ [idx]"
    using idx False by (simp add: new_keys_snoc)
  have old: "map (apply_payload t (last_payload Map.empty (pre @ [n]))) rows
           = map (apply_payload t (last_payload Map.empty pre)) rows"
  proof (rule map_cong [OF refl])
    fix r assume "r \<in> set rows"
    with nokey have "\<not> node_key_matches t idx r" by (auto simp: list_ex_iff)
    then show "apply_payload t (last_payload Map.empty (pre @ [n])) r
        = apply_payload t (last_payload Map.empty pre) r"
      using idx by (simp add: last_payload_snoc apply_payload_upd)
  qed
  have new: "map (\<lambda>(j, i). appended_row d t (pre @ [n]) (fresh_node_id rows + j) i)
               (enumerate 0 (new_keys t pre rows))
           = map (\<lambda>(j, i). appended_row d t pre (fresh_node_id rows + j) i)
               (enumerate 0 (new_keys t pre rows))"
  proof (rule map_cong [OF refl])
    fix p assume p: "p \<in> set (enumerate 0 (new_keys t pre rows))"
    obtain j i where ji: "p = (j, i)" by (cases p)
    with p have i: "i \<in> set (new_keys t pre rows)" by (auto simp: in_set_enumerate_eq)
    then have "i \<in> set (payload_indices pre)" by (rule new_key_in_payload)
    moreover from i notnew have "i \<noteq> idx" by auto
    ultimately show "(case p of (j, i) \<Rightarrow> appended_row d t (pre @ [n]) (fresh_node_id rows + j) i)
        = (case p of (j, i) \<Rightarrow> appended_row d t pre (fresh_node_id rows + j) i)"
      using appended_row_snoc [OF idx, of i pre d t] ji by simp
  qed
  have last: "appended_row d t (pre @ [n]) (fresh_node_id rows + length (new_keys t pre rows)) idx
      = inserted_row d t idx n (upsert_result d t pre rows)"
  proof -
    have "inserted_row d t idx n (upsert_result d t pre rows)
        = (inserted_row d t idx n (upsert_result d t pre rows))
            \<lparr>node_id := fresh_node_id rows + length (new_keys t pre rows)\<rparr>"
      by (simp add: inserted_row_def fresh_node_id_upsert)
    with appended_row_new [OF idx fresh, of d t _ "upsert_result d t pre rows"]
    show ?thesis by simp
  qed
  have "insert_node d t n (upsert_result d t pre rows)
      = Inr (upsert_result d t pre rows @ [inserted_row d t idx n (upsert_result d t pre rows)])"
    using idx has by (simp add: insert_node_def)
  also have "upsert_result d t pre rows @ [inserted_row d t idx n (upsert_result d t pre rows)]
      = upsert_result d t (pre @ [n]) rows"
    unfolding upsert_result_def [of d t "pre @ [n]"] keys old
    by (simp add: enumerate_append_eq new last upsert_result_def)
  finally show ?thesis .
qed

lemma upsert_result_Nil [simp]: "upsert_result d t [] rows = rows"
proof -
  have "map (apply_payload t Map.empty) rows = rows"
    by (rule map_idI) (simp add: apply_payload_def)
  then show ?thesis by (simp add: upsert_result_def new_keys_def payload_indices_def map_filter_def)
qed

lemma insert_nodes_upsert_from:
  assumes "\<forall>n \<in> set ns. payload_index n \<noteq> None"
  shows "insert_nodes d t ns (upsert_result d t pre rows) = Inr (upsert_result d t (pre @ ns) rows)"
  using assms
proof (induction ns arbitrary: pre)
  case Nil
  then show ?case by simp
next
  case (Cons n ns)
  then obtain idx where idx: "payload_index n = Some idx" by auto
  have "insert_nodes d t ns (upsert_result d t (pre @ [n]) rows)
      = Inr (upsert_result d t ((pre @ [n]) @ ns) rows)"
    using Cons.prems by (intro Cons.IH) simp
  with insert_node_upsert_step [OF idx, of d t pre rows] show ?case by simp
qed

lemma insert_nodes_upsert:
  "\<forall>n \<in> set ns. payload_index n \<noteq> None \<Longrightarrow>
     insert_nodes d t ns rows = Inr (upsert_result d t ns rows)"
  using insert_nodes_upsert_from [of ns d t "[]" rows] by simp

lemma insert_node_total:
  "payload_index n \<noteq> None \<Longrightarrow> \<exists>rows'. insert_node d t n rows = Inr rows'"
  by (auto simp: insert_node_def)

lemma insert_nodes_rejects:
  assumes "\<exists>n \<in> set ns. payload_index n = None"
  shows "insert_nodes d t ns rows = Inl IntegrityError"
  using assms
proof (induction ns arbitrary: rows)
  case Nil
  then show ?case by simp
next
  case (Cons n ns)
  show ?case
  proof (cases "payload_index n")
    case None
    then show ?thesis by (simp add: insert_node_def)
  next
    case (Some idx)
    then obtain rows1 where r: "insert_node d t n rows = Inr rows1"
      using insert_node_total [of n d t rows] by auto
    from Some Cons.prems have "\<exists>m \<in> set ns. payload_index m = None" by auto
    from Cons.IH [OF this] r show ?thesis by simp
  qed
qed

lemma batch_insert_nodes_closed_form:
  "batch_insert_nodes d t ns rows =
     (if list_all (\<lambda>n. payload_index n \<noteq> None) ns then Inr (upsert_result d t ns rows)
      else Inl IntegrityError)"
proof (cases "list_all (\<lambda>n. payload_index n \<noteq> None) ns")
  case True
  then have "\<forall>n \<in> set ns. payload_index n \<noteq> None" by (simp add: list_all_iff)
  from insert_nodes_upsert [OF this] True show ?thesis
    by (cases ns) (simp_all add: batch_insert_nodes_def)
next
  case False
  then have "\<exists>n \<in> set ns. payload_index n = None" by (auto simp: list_all_iff)
  from insert_nodes_rejects [OF this] False show ?thesis
    by (cases ns) (simp_all add: batch_insert_nodes_def)
qed

subsection \<open>Prune marking\<close>

lemma mark_nodes_pruned_nonempty:
  "S \<noteq> [] \<Longrightarrow> mark_nodes_pruned t S rows =
     map (\<lambda>r. if node_task_id r = t then r\<lparr>is_pruned := (node_index r \<in> set S)\<rparr> else r) rows"
  by (auto simp: mark_nodes_pruned_def set_pruned_def reset_pruned_def)

text \<open>
  C1, as the code has it. For a non-empty index list \<open>S'\<close>, calling
  \<open>mark_nodes_pruned t S\<close> and then \<open>mark_nodes_pruned t S'\<close> leaves, among the nodes
  of task \<open>t\<close>, exactly those with an index in \<open>S'\<close> marked and every other node of the
  task unmarked; the nodes of other tasks and all other columns are as before. The call
  is the reset of the task's nodes followed by the marking of the listed indices, and
  the earlier call leaves no trace (the second call alone gives the same table). A call
  with the empty list changes nothing.
\<close>

theorem mark_nodes_pruned_twice:
  assumes "S' \<noteq> []"
  shows "mark_nodes_pruned t S' (mark_nodes_pruned t S rows) =
           map (\<lambda>r. if node_task_id r = t
                     then r\<lparr>is_pruned := (node_index r \<in> set S')\<rparr> else r) rows
       \<and> mark_nodes_pruned t S' rows = set_pruned t S' (reset_pruned t rows)
       \<and> mark_nodes_pruned t S' (mark_nodes_pruned t S rows) = mark_nodes_pruned t S' rows
       \<and> mark_nodes_pruned t [] rows = rows"
proof -
  have second: "mark_nodes_pruned t S' rows0 =
      map (\<lambda>r. if node_task_id r = t then r\<lparr>is_pruned := (node_index r \<in> set S')\<rparr> else r) rows0"
    for rows0
    using assms by (rule mark_nodes_pruned_nonempty)
  have first: "mark_nodes_pruned t S' (mark_nodes_pruned t S rows) =
      map (\<lambda>r. if node_task_id r = t then r\<lparr>is_pruned := (node_index r \<in> set S')\<rparr> else r) rows"
  proof (cases "S = []")
    case True
    then show ?thesis using second by (simp add: mark_nodes_pruned_def)
  next
    case False
    then have "mark_nodes_pruned t S rows =
        map (\<lambda>r. if node_task_id r = t then r\<lparr>is_pruned := (node_index r \<in> set S)\<rparr> else r) rows"
      by (rule mark_nodes_pruned_nonempty)
    then show ?thesis by (simp add: second comp_def)
  qed
  have phases: "mark_nodes_pruned t S' rows = set_pruned t S' (reset_pruned t rows)"
    using assms by (simp add: mark_nodes_pruned_def)
  have noop: "mark_nodes_pruned t [] rows = rows"
    by (simp add: mark_nodes_pruned_def)
  from first second [of rows] phases noop show ?thesis by simp
qed

theorem mark_nodes_pruned_twice_witness:
  "[1::int] \<noteq> []
   \<and> map (\<lambda>r. (node_task_id r, node_index r, is_pruned r))
         (mark_nodes_pruned 1 [1] (mark_nodes_pruned 1 [0] example_rows))
       = [(1, 0, False), (1, 1, True), (2, 0, True)]"
proof -
  have h: "[1::int] \<noteq> []" by simp
  from mark_nodes_pruned_twice [OF h, of 1 "[0]" example_rows]
  have "mark_nodes_pruned 1 [1] (mark_nodes_pruned 1 [0] example_rows) =
           map (\<lambda>r. if node_task_id r = 1
                     then r\<lparr>is_pruned := (node_index r \<in> set [1])\<rparr> else r) example_rows"
    by (elim conjE)
  then show ?thesis by (simp add: example_rows_def)
qed

text \<open>
  C1 as stated fails for the empty second list: after marking index 0 and then calling
  with no indices, node 0 of the task is still marked although it is not in the second
  list.
\<close>

theorem mark_nodes_pruned_empty_counterexample:
  "map (\<lambda>r. (node_task_id r, node_index r, is_pruned r))
       (mark_nodes_pruned 1 [] (mark_nodes_pruned 1 [0] example_rows))
     = [(1, 0, True), (1, 1, False), (2, 0, True)]"
  by (simp add: mark_nodes_pruned_def set_pruned_def reset_pruned_def example_rows_def)

subsection \<open>Batch insertion of nodes\<close>

lemmas example_batch_defs =
  batch_insert_nodes_def insert_node_def payload_index_def safe_get_def
  node_key_matches_def excluded_update_def inserted_row_def fresh_node_id_def
  url_val_of_def url_is_file_def url_file_ext_def file_extensions_def endswith_def
  lower_def lower_char_def lstrip_char_def mark_nodes_pruned_def set_pruned_def
  reset_pruned_def example_payload_def example_rows_def example_rows_after_def
  example_first_batch_def

text \<open>
  C8. \<open>batch_insert_nodes\<close> succeeds exactly when every payload node carries an index,
  and then the table it returns is the upsert keyed by \<open>(task_id, node_index)\<close> in
  closed form: every old row stays in its place, overwritten in title, breadcrumb, url,
  father title, \<open>is_file\<close> and \<open>file_extension\<close> by the last payload node under its
  key and left as it is when the payload has no node under its key; after the old rows
  comes exactly one new row for each key of the payload that had no row, in the order of
  first occurrence. Every payload node has a row; the row of a node that no later
  payload element overwrites carries the payload's title, breadcrumb, url and father
  title; its \<open>is_file\<close> holds exactly when the lower-cased url ends with one of
  \<open>.pdf .doc .docx .xls .xlsx\<close>, and \<open>file_extension\<close> is that extension written
  without its leading dot (\<open>ext.lstrip('.')\<close>, so \<open>pdf\<close> for \<open>.pdf\<close>), or \<open>None\<close>
  when there is none. Rows that existed keep their key, father index, depth and
  \<open>is_pruned\<close>; new rows get the column default. The result does not depend on the
  prune markings of the table, and inserting the same payload again returns the same
  table: neither the row count nor a prune marking changes.
\<close>

theorem batch_insert_nodes_upsert:
  "batch_insert_nodes dflt tid nodes rows =
     (if list_all (\<lambda>n. payload_index n \<noteq> None) nodes
      then Inr (upsert_result dflt tid nodes rows) else Inl IntegrityError)
   \<and> distinct (new_keys tid nodes rows)
   \<and> set (new_keys tid nodes rows)
       = {idx \<in> set (payload_indices nodes). \<not> list_ex (node_key_matches tid idx) rows}
   \<and> length (upsert_result dflt tid nodes rows) = length rows + length (new_keys tid nodes rows)
   \<and> (\<forall>rows'. batch_insert_nodes dflt tid nodes rows = Inr rows' \<longrightarrow>
         (\<forall>n \<in> set nodes. \<exists>idx. payload_index n = Some idx \<and> list_ex (node_key_matches tid idx) rows')
       \<and> (\<forall>i < length rows.
             \<not> (node_task_id (rows ! i) = tid \<and> node_index (rows ! i) \<in> set (payload_indices nodes)) \<longrightarrow>
             rows' ! i = rows ! i)
       \<and> (\<forall>pre n post idx r.
             nodes = pre @ n # post \<and> payload_index n = Some idx
             \<and> (\<forall>m \<in> set post. payload_index m \<noteq> Some idx)
             \<and> r \<in> set rows' \<and> node_key_matches tid idx r \<longrightarrow>
               title r = k_title n
             \<and> breadcrumb r = safe_get (k_Breadcrumb n) (k_breadcrumb n)
             \<and> node_url r = url_val_of n
             \<and> father_title r = safe_get (k_FatherTitle n) (k_father_title n)
             \<and> is_file r = (\<exists>e \<in> set file_extensions. endswith (lower (node_url r)) e)
             \<and> (\<forall>e \<in> set file_extensions.
                    endswith (lower (node_url r)) e \<longrightarrow> file_extension r = Some (tl e))
             \<and> (\<not> is_file r \<longrightarrow> file_extension r = None))
       \<and> length rows \<le> length rows'
       \<and> map frame_cols (take (length rows) rows') = map frame_cols rows
       \<and> map is_pruned (drop (length rows) rows') = replicate (length rows' - length rows) dflt
       \<and> (\<forall>rows2. map erase_pruned rows2 = map erase_pruned rows \<longrightarrow>
             map_sum id (map erase_pruned) (batch_insert_nodes dflt tid nodes rows2)
               = Inr (map erase_pruned rows'))
       \<and> batch_insert_nodes dflt tid nodes rows' = Inr rows')"
proof -
  have closed: "batch_insert_nodes dflt tid nodes rows =
     (if list_all (\<lambda>n. payload_index n \<noteq> None) nodes
      then Inr (upsert_result dflt tid nodes rows) else Inl IntegrityError)"
    by (rule batch_insert_nodes_closed_form)
  have dist: "distinct (new_keys tid nodes rows)" by (rule distinct_new_keys)
  have keys: "set (new_keys tid nodes rows)
       = {idx \<in> set (payload_indices nodes). \<not> list_ex (node_key_matches tid idx) rows}"
    by (rule set_new_keys)
  have len: "length (upsert_result dflt tid nodes rows) = length rows + length (new_keys tid nodes rows)"
    by (simp add: upsert_result_def)
  have rest: "(\<forall>n \<in> set nodes. \<exists>idx. payload_index n = Some idx \<and> list_ex (node_key_matches tid idx) rows')
       \<and> (\<forall>i < length rows.
             \<not> (node_task_id (rows ! i) = tid \<and> node_index (rows ! i) \<in> set (payload_indices nodes)) \<longrightarrow>
             rows' ! i = rows ! i)
       \<and> (\<forall>pre n post idx r.
             nodes = pre @ n # post \<and> payload_index n = Some idx
             \<and> (\<forall>m \<in> set post. payload_index m \<noteq> Some idx)
             \<and> r \<in> set rows' \<and> node_key_matches tid idx r \<longrightarrow>
               title r = k_title n
             \<and> breadcrumb r = safe_get (k_Breadcrumb n) (k_breadcrumb n)
             \<and> node_url r = url_val_of n
             \<and> father_title r = safe_get (k_FatherTitle n) (k_father_title n)
             \<and> is_file r = (\<exists>e \<in> set file_extensions. endswith (lower (node_url r)) e)
             \<and> (\<forall>e \<in> set file_extensions.
                    endswith (lower (node_url r)) e \<longrightarrow> file_extension r = Some (tl e))
             \<and> (\<not> is_file r \<longrightarrow> file_extension r = None))
       \<and> length rows \<le> length rows'
       \<and> map frame_cols (take (length rows) rows') = map frame_cols rows
       \<and> map is_pruned (drop (length rows) rows') = replicate (length rows' - length rows) dflt
       \<and> (\<forall>rows2. map erase_pruned rows2 = map erase_pruned rows \<longrightarrow>
             map_sum id (map erase_pruned) (batch_insert_nodes dflt tid nodes rows2)
               = Inr (map erase_pruned rows'))
       \<and> batch_insert_nodes dflt tid nodes rows' = Inr rows'"
    if ok: "batch_insert_nodes dflt tid nodes rows = Inr rows'" for rows'
  proof -
    have loop: "insert_nodes dflt tid nodes rows = Inr rows'"
      using ok by (cases "nodes = []") (simp_all add: batch_insert_nodes_def)
    have batch: "batch_insert_nodes dflt tid nodes rows0 = insert_nodes dflt tid nodes rows0" for rows0
      by (cases nodes) (simp_all add: batch_insert_nodes_def)
    have res: "rows' = upsert_result dflt tid nodes rows"
      using ok closed by (simp split: if_splits)
    have present: "\<forall>n \<in> set nodes. \<exists>idx. payload_index n = Some idx \<and> list_ex (node_key_matches tid idx) rows'"
      using insert_nodes_has_keys [OF loop] by blast
    have untouched: "\<forall>i < length rows.
             \<not> (node_task_id (rows ! i) = tid \<and> node_index (rows ! i) \<in> set (payload_indices nodes)) \<longrightarrow>
             rows' ! i = rows ! i"
    proof (intro allI impI)
      fix i assume i: "i < length rows"
        and un: "\<not> (node_task_id (rows ! i) = tid \<and> node_index (rows ! i) \<in> set (payload_indices nodes))"
      have "rows' ! i = apply_payload tid (last_payload Map.empty nodes) (rows ! i)"
        using i by (simp add: res upsert_result_def nth_append)
      also have "\<dots> = rows ! i"
      proof (cases "node_task_id (rows ! i) = tid")
        case True
        with un have "node_index (rows ! i) \<notin> set (payload_indices nodes)" by simp
        then have "last_payload Map.empty nodes (node_index (rows ! i)) = None"
          by (simp add: last_payload_absent)
        then show ?thesis by (simp add: apply_payload_def)
      next
        case False
        then show ?thesis by (simp add: apply_payload_def)
      qed
      finally show "rows' ! i = rows ! i" .
    qed
    have "title r = k_title n
        \<and> breadcrumb r = safe_get (k_Breadcrumb n) (k_breadcrumb n)
        \<and> node_url r = url_val_of n
        \<and> father_title r = safe_get (k_FatherTitle n) (k_father_title n)
        \<and> is_file r = (\<exists>e \<in> set file_extensions. endswith (lower (node_url r)) e)
        \<and> (\<forall>e \<in> set file_extensions. endswith (lower (node_url r)) e \<longrightarrow> file_extension r = Some (tl e))
        \<and> (\<not> is_file r \<longrightarrow> file_extension r = None)"
      if n: "nodes = pre @ n # post" "payload_index n = Some idx"
        "\<forall>m \<in> set post. payload_index m \<noteq> Some idx" "r \<in> set rows'" "node_key_matches tid idx r"
      for pre n post idx r
    proof -
      have "insert_nodes dflt tid (pre @ n # post) rows = Inr rows'"
        using loop n(1) by simp
      then have "excluded_update n r = r"
        using n(2,3,4,5) by (rule insert_nodes_last_wins)
      note cols = excluded_update_fixed [OF this]
      have "is_file r = (\<exists>e \<in> set file_extensions. endswith (lower (node_url r)) e)"
        using cols(5) by (simp add: url_is_file_iff)
      moreover have "\<forall>e \<in> set file_extensions. endswith (lower (node_url r)) e \<longrightarrow> file_extension r = Some (tl e)"
        using cols(6) url_file_ext_unique by simp
      moreover have "\<not> is_file r \<longrightarrow> file_extension r = None"
        using cols(5,6) by (simp add: url_file_ext_None)
      ultimately show ?thesis using cols(1-4) by blast
    qed
    then have vals: "\<forall>pre n post idx r.
             nodes = pre @ n # post \<and> payload_index n = Some idx
             \<and> (\<forall>m \<in> set post. payload_index m \<noteq> Some idx)
             \<and> r \<in> set rows' \<and> node_key_matches tid idx r \<longrightarrow>
               title r = k_title n
             \<and> breadcrumb r = safe_get (k_Breadcrumb n) (k_breadcrumb n)
             \<and> node_url r = url_val_of n
             \<and> father_title r = safe_get (k_FatherTitle n) (k_father_title n)
             \<and> is_file r = (\<exists>e \<in> set file_extensions. endswith (lower (node_url r)) e)
             \<and> (\<forall>e \<in> set file_extensions.
                    endswith (lower (node_url r)) e \<longrightarrow> file_extension r = Some (tl e))
             \<and> (\<not> is_file r \<longrightarrow> file_extension r = None)"
      by blast
    note frame = insert_nodes_frame [OF loop]
    have blind: "\<forall>rows2. map erase_pruned rows2 = map erase_pruned rows \<longrightarrow>
             map_sum id (map erase_pruned) (batch_insert_nodes dflt tid nodes rows2)
               = Inr (map erase_pruned rows')"
      using insert_nodes_ignores_pruned [of _ rows dflt tid nodes] loop by (simp add: batch)
    have again: "batch_insert_nodes dflt tid nodes rows' = Inr rows'"
      using insert_nodes_idem [OF loop] by (simp add: batch)
    from present untouched vals frame blind again show ?thesis by (intro conjI) blast+
  qed
  with closed dist keys len show ?thesis by (intro conjI allI impI) blast+
qed

text \<open>
  The theorem at concrete inputs: a first batch for a task without rows (on the empty
  table and beside the rows of other tasks), a batch that addresses one row of a task
  and leaves its other row alone, a batch that updates two rows and appends one, the
  same batch again, and a batch with a node that has no index.
\<close>

theorem batch_insert_nodes_upsert_witness:
  "batch_insert_nodes False 7 example_payload [] = Inr example_first_batch
   \<and> upsert_result False 7 example_payload [] = example_first_batch
   \<and> new_keys 7 example_payload [] = [0, 1, 2]
   \<and> batch_insert_nodes False 7 example_payload example_rows
       = Inr (example_rows @ map (\<lambda>r. r\<lparr>node_id := node_id r + 3\<rparr>) example_first_batch)
   \<and> batch_insert_nodes False 1 [example_payload ! 1] (mark_nodes_pruned 1 [1] example_rows)
       = Inr [example_rows ! 0, example_rows_after ! 1, example_rows ! 2]
   \<and> batch_insert_nodes False 1 example_payload (mark_nodes_pruned 1 [1] example_rows)
       = Inr example_rows_after
   \<and> batch_insert_nodes False 1 example_payload example_rows_after = Inr example_rows_after
   \<and> batch_insert_nodes False 1 (example_payload @ [(example_payload ! 1)\<lparr>k_Index := None\<rparr>])
        example_rows = Inl IntegrityError
   \<and> length (mark_nodes_pruned 1 [1] example_rows) = 3 \<and> length example_rows_after = 4
   \<and> map is_pruned (mark_nodes_pruned 1 [1] example_rows) = [False, True, True]
   \<and> map is_pruned example_rows_after = [False, True, True, False]
   \<and> map (\<lambda>r. (node_url r, is_file r, file_extension r)) example_rows_after
       = [(''http://u.example/admissions'', False, None),
          (''http://u.example/Guide.DOCX'', True, Some ''docx''),
          (''http://v.example/'', False, None),
          (''http://u.example/list.XLS'', True, Some ''xls'')]"
proof -
  have first: "batch_insert_nodes False 7 example_payload [] = Inr example_first_batch"
    by (simp add: example_batch_defs)
  have all: "list_all (\<lambda>n. payload_index n \<noteq> None) example_payload"
    by (simp add: example_payload_def payload_index_def safe_get_def)
  from batch_insert_nodes_upsert [of False 7 example_payload "[]"]
  have "batch_insert_nodes False 7 example_payload [] =
     (if list_all (\<lambda>n. payload_index n \<noteq> None) example_payload
      then Inr (upsert_result False 7 example_payload []) else Inl IntegrityError)"
    by (elim conjE)
  with first all have closed: "upsert_result False 7 example_payload [] = example_first_batch"
    by simp
  from batch_insert_nodes_upsert [of False 7 example_payload "[]"]
  have "length (upsert_result False 7 example_payload [])
      = length ([] :: node_row list) + length (new_keys 7 example_payload [])"
    by (elim conjE)
  have nk: "new_keys 7 example_payload [] = [0, 1, 2]"
    by (simp add: new_keys_def payload_indices_def map_filter_def example_payload_def
        payload_index_def safe_get_def)
  have beside: "batch_insert_nodes False 7 example_payload example_rows
       = Inr (example_rows @ map (\<lambda>r. r\<lparr>node_id := node_id r + 3\<rparr>) example_first_batch)"
    by (simp add: example_batch_defs)
  have one: "batch_insert_nodes False 1 [example_payload ! 1] (mark_nodes_pruned 1 [1] example_rows)
       = Inr [example_rows ! 0, example_rows_after ! 1, example_rows ! 2]"
    by (simp add: example_batch_defs)
  have h: "batch_insert_nodes False 1 example_payload (mark_nodes_pruned 1 [1] example_rows)
      = Inr example_rows_after"
    by (simp add: example_batch_defs)
  from batch_insert_nodes_upsert [of False 1 example_payload "mark_nodes_pruned 1 [1] example_rows"] h
  have again: "batch_insert_nodes False 1 example_payload example_rows_after = Inr example_rows_after"
    by blast
  have bad: "\<not> list_all (\<lambda>n. payload_index n \<noteq> None)
      (example_payload @ [(example_payload ! 1)\<lparr>k_Index := None\<rparr>])"
    by (simp add: example_payload_def payload_index_def safe_get_def)
  from batch_insert_nodes_upsert [of False 1
      "example_payload @ [(example_payload ! 1)\<lparr>k_Index := None\<rparr>]" example_rows] bad
  have reject: "batch_insert_nodes False 1
      (example_payload @ [(example_payload ! 1)\<lparr>k_Index := None\<rparr>]) example_rows
      = Inl IntegrityError"
    by simp
  have rest: "length (mark_nodes_pruned 1 [1] example_rows) = 3 \<and> length example_rows_after = 4
   \<and> map is_pruned (mark_nodes_pruned 1 [1] example_rows) = [False, True, True]
   \<and> map is_pruned example_rows_after = [False, True, True, False]
   \<and> map (\<lambda>r. (node_url r, is_file r, file_extension r)) example_rows_after
       = [(''http://u.example/admissions'', False, None),
          (''http://u.example/Guide.DOCX'', True, Some ''docx''),
          (''http://v.example/'', False, None),
          (''http://u.example/list.XLS'', True, Some ''xls'')]"
    by (simp add: mark_nodes_pruned_def set_pruned_def reset_pruned_def example_rows_def
        example_rows_after_def)
  from first closed nk beside one h again reject rest show ?thesis
    by (intro conjI) (elim conjE, assumption)+
qed

subsection \<open>Download status of a file row\<close>

lemma file_download_update_status [simp]:
  "download_status (file_download_update st sp fs em r) = st"
  by (simp add: file_download_update_def Let_def)

lemma file_download_update_id [simp]:
  "file_id (file_download_update st sp fs em r) = file_id r"
  by (simp add: file_download_update_def Let_def)






subsection \<open>Downloader\<close>

lemma stream_body_oversize:
  assumes "file_sz \<le> max_sz" and "max_sz < file_sz + sum_list ns"
  shows "\<exists>k. stream_body max_sz (map Chunk ns @ rest) file_sz = StreamOversize k \<and> max_sz < k"
  using assms
proof (induction ns arbitrary: file_sz)
  case Nil
  then show ?case by simp
next
  case (Cons n ns)
  show ?case
  proof (cases "n = 0")
    case True
    with Cons.prems have "max_sz < file_sz + sum_list ns" by simp
    from Cons.IH [OF Cons.prems(1) this] show ?thesis using True by simp
  next
    case False
    show ?thesis
    proof (cases "max_sz < file_sz + n")
      case True
      with False show ?thesis by simp
    next
      case small: False
      then have le: "file_sz + n \<le> max_sz" by simp
      from Cons.prems(2) have "max_sz < (file_sz + n) + sum_list ns" by simp
      from Cons.IH [OF le this] show ?thesis using False small by simp
    qed
  qed
qed






lemma endswith_append [simp]: "endswith (a @ b) b"
  by (simp add: endswith_def)














end
